theory Spec2Isabelle
  imports Main
begin

section \<open>Strings and characters\<close>

text \<open>
  The parser works on Python 3 \<^verbatim>\<open>str\<close> values: sequences of Unicode code points.
  A character is its code point, a string is a list of code points, so that
  \<^verbatim>\<open>len\<close>, indexing and slicing count what the source counts.
\<close>

type_synonym uchar = nat
type_synonym ustring = "nat list"

abbreviation (input) ord :: "char \<Rightarrow> uchar" where
  "ord c \<equiv> of_char c"

definition ustr :: "string \<Rightarrow> ustring" where
  "ustr s = map of_char s"

abbreviation (input) TAB :: uchar where "TAB \<equiv> 9"
abbreviation (input) NL :: uchar where "NL \<equiv> 10"
abbreviation (input) VT :: uchar where "VT \<equiv> 11"
abbreviation (input) FF :: uchar where "FF \<equiv> 12"
abbreviation (input) CR :: uchar where "CR \<equiv> 13"
abbreviation (input) SP :: uchar where "SP \<equiv> 32"

text \<open>\<^verbatim>\<open>peek(ln, pos)\<close>: the character at \<open>pos\<close>, or \<^verbatim>\<open>None\<close> past the end.\<close>

definition peek :: "ustring \<Rightarrow> nat \<Rightarrow> uchar option" where
  "peek ln pos = (if pos < length ln then Some (ln ! pos) else None)"

subsection \<open>Character classes of Python's \<^verbatim>\<open>re\<close> on \<^verbatim>\<open>str\<close> patterns\<close>

text \<open>
  \<^verbatim>\<open>\d\<close> on a \<^verbatim>\<open>str\<close> pattern matches every character of Unicode category Nd.
  The category is a table of ranges, each a whole number of runs \<open>0..9\<close>;
  \<^verbatim>\<open>int()\<close> reads such a character as its place in its run.
\<close>

definition Nd_ranges :: "(nat \<times> nat) list" where
  "Nd_ranges = [(0x30, 0x39), (0x660, 0x669), (0x6F0, 0x6F9), (0x7C0, 0x7C9),
    (0x966, 0x96F), (0x9E6, 0x9EF), (0xA66, 0xA6F), (0xAE6, 0xAEF), (0xB66, 0xB6F),
    (0xBE6, 0xBEF), (0xC66, 0xC6F), (0xCE6, 0xCEF), (0xD66, 0xD6F), (0xDE6, 0xDEF),
    (0xE50, 0xE59), (0xED0, 0xED9), (0xF20, 0xF29), (0x1040, 0x1049), (0x1090, 0x1099),
    (0x17E0, 0x17E9), (0x1810, 0x1819), (0x1946, 0x194F), (0x19D0, 0x19D9),
    (0x1A80, 0x1A89), (0x1A90, 0x1A99), (0x1B50, 0x1B59), (0x1BB0, 0x1BB9),
    (0x1C40, 0x1C49), (0x1C50, 0x1C59), (0xA620, 0xA629), (0xA8D0, 0xA8D9),
    (0xA900, 0xA909), (0xA9D0, 0xA9D9), (0xA9F0, 0xA9F9), (0xAA50, 0xAA59),
    (0xABF0, 0xABF9), (0xFF10, 0xFF19), (0x104A0, 0x104A9), (0x10D30, 0x10D39),
    (0x11066, 0x1106F), (0x110F0, 0x110F9), (0x11136, 0x1113F), (0x111D0, 0x111D9),
    (0x112F0, 0x112F9), (0x11450, 0x11459), (0x114D0, 0x114D9), (0x11650, 0x11659),
    (0x116C0, 0x116C9), (0x11730, 0x11739), (0x118E0, 0x118E9), (0x11950, 0x11959),
    (0x11C50, 0x11C59), (0x11D50, 0x11D59), (0x11DA0, 0x11DA9), (0x16A60, 0x16A69),
    (0x16AC0, 0x16AC9), (0x16B50, 0x16B59), (0x1D7CE, 0x1D7FF), (0x1E140, 0x1E149),
    (0x1E2F0, 0x1E2F9), (0x1E950, 0x1E959), (0x1FBF0, 0x1FBF9)]"

definition is_digit :: "uchar \<Rightarrow> bool" where
  "is_digit c = list_ex (\<lambda>(lo, hi). lo \<le> c \<and> c \<le> hi) Nd_ranges"

definition digit_value :: "uchar \<Rightarrow> int" where
  "digit_value c =
     (case filter (\<lambda>(lo, hi). lo \<le> c \<and> c \<le> hi) Nd_ranges of
        [] \<Rightarrow> 0
      | (lo, hi) # _ \<Rightarrow> int ((c - lo) mod 10))"

text \<open>\<^verbatim>\<open>int(digits)\<close>, most significant digit first.\<close>

definition int_of_digits :: "ustring \<Rightarrow> int" where
  "int_of_digits ds = foldl (\<lambda>acc d. 10 * acc + digit_value d) 0 ds"

text \<open>\<^verbatim>\<open>[0-9]\<close> is the ASCII range only.\<close>

definition is_ascii_digit :: "uchar \<Rightarrow> bool" where
  "is_ascii_digit c = (ord CHR ''0'' \<le> c \<and> c \<le> ord CHR ''9'')"

text \<open>\<^verbatim>\<open>\s\<close>, and the characters \<^verbatim>\<open>str.strip()\<close> removes: Unicode white space.\<close>

definition is_space :: "uchar \<Rightarrow> bool" where
  "is_space c = (c \<in> set [0x9, 0xA, 0xB, 0xC, 0xD, 0x1C, 0x1D, 0x1E, 0x1F, 0x20, 0x85,
     0xA0, 0x1680, 0x2000, 0x2001, 0x2002, 0x2003, 0x2004, 0x2005, 0x2006, 0x2007,
     0x2008, 0x2009, 0x200A, 0x2028, 0x2029, 0x202F, 0x205F, 0x3000])"

definition strip :: "ustring \<Rightarrow> ustring" where
  "strip s = rev (dropWhile is_space (rev (dropWhile is_space s)))"

text \<open>
  A letter of a pattern compiled with \<^verbatim>\<open>re.IGNORECASE\<close> matches its two ASCII
  cases and the characters that case-fold to it; any other pattern character
  matches itself.
\<close>

definition ieq :: "uchar \<Rightarrow> uchar \<Rightarrow> bool" where
  "ieq p c =
     (if ord CHR ''a'' \<le> p \<and> p \<le> ord CHR ''z''
      then c = p \<or> c + 32 = p
           \<or> (p = ord CHR ''i'' \<and> (c = 0x130 \<or> c = 0x131))
           \<or> (p = ord CHR ''k'' \<and> c = 0x212A)
           \<or> (p = ord CHR ''s'' \<and> c = 0x17F)
      else c = p)"

text \<open>The literal \<open>p\<close> (lower case) matches at the start of \<open>s\<close>, ignoring case.\<close>

fun iprefix :: "ustring \<Rightarrow> ustring \<Rightarrow> bool" where
  "iprefix [] s = True"
| "iprefix (p # ps) [] = False"
| "iprefix (p # ps) (c # cs) = (ieq p c \<and> iprefix ps cs)"

text \<open>
  \<^verbatim>\<open>$\<close> without \<^verbatim>\<open>re.MULTILINE\<close> matches at the end of the string and just
  before a newline that ends the string.
\<close>

definition at_end :: "ustring \<Rightarrow> bool" where
  "at_end s = (s = [] \<or> s = [NL])"

subsection \<open>The regular expressions of the module\<close>

text \<open>\<^verbatim>\<open>reNonSpace = [^ \t\f\v\r\n]\<close> and \<^verbatim>\<open>is_blank\<close>.\<close>

definition is_blank :: "ustring \<Rightarrow> bool" where
  "is_blank s = (\<forall>c \<in> set s. c \<in> {SP, TAB, FF, VT, CR, NL})"

text \<open>\<^verbatim>\<open>reMaybeSpecial = ^[#`~*+_=<>0-9-]\<close>, searched in the rest of the line.\<close>

definition maybe_special_chars :: "uchar list" where
  "maybe_special_chars = ustr ''#`~*+_=<>-''"

definition reMaybeSpecial :: "ustring \<Rightarrow> bool" where
  "reMaybeSpecial s =
     (case s of [] \<Rightarrow> False
      | c # _ \<Rightarrow> c \<in> set maybe_special_chars \<or> is_ascii_digit c)"

text \<open>
  \<^verbatim>\<open>reBulletListMarker = ^[*+-]\<close>; the result is the matched text.
\<close>

definition reBulletListMarker :: "ustring \<Rightarrow> ustring option" where
  "reBulletListMarker s =
     (case s of [] \<Rightarrow> None
      | c # _ \<Rightarrow> if c \<in> set (ustr ''*+-'') then Some [c] else None)"

text \<open>
  \<^verbatim>\<open>reOrderedListMarker = ^(\d{1,9})([.)])\<close>; the result is the two groups.
  A run of ten or more digits cannot match: after any nine of them comes a digit.
\<close>

definition reOrderedListMarker :: "ustring \<Rightarrow> (ustring \<times> uchar) option" where
  "reOrderedListMarker s =
     (let ds = takeWhile is_digit s; r = dropWhile is_digit s
      in if 1 \<le> length ds \<and> length ds \<le> 9
         then (case r of [] \<Rightarrow> None
               | c # _ \<Rightarrow> if c \<in> set (ustr ''.)'') then Some (ds, c) else None)
         else None)"

text \<open>
  \<^verbatim>\<open>reATXHeadingMarker = ^#{1,6}(?: +|$)\<close>; the result is the number of
  \<^verbatim>\<open>#\<close> and the length of the whole match.
\<close>

definition reATXHeadingMarker :: "ustring \<Rightarrow> (nat \<times> nat) option" where
  "reATXHeadingMarker s =
     (let hs = takeWhile (\<lambda>c. c = ord CHR ''#'') s;
          r = dropWhile (\<lambda>c. c = ord CHR ''#'') s;
          sps = takeWhile (\<lambda>c. c = SP) r
      in if 1 \<le> length hs \<and> length hs \<le> 6
         then (if sps \<noteq> [] then Some (length hs, length hs + length sps)
               else if at_end r then Some (length hs, length hs)
               else None)
         else None)"

text \<open>
  \<^verbatim>\<open>reCodeFence = ^`{3,}(?!.*`)|^~{3,}(?!.*~)\<close>; the result is the matched run.
  \<^verbatim>\<open>.\<close> stops at a newline.
\<close>

definition fence_run :: "uchar \<Rightarrow> ustring \<Rightarrow> ustring option" where
  "fence_run f s =
     (let run = takeWhile (\<lambda>c. c = f) s; r = dropWhile (\<lambda>c. c = f) s
      in if 3 \<le> length run \<and> f \<notin> set (takeWhile (\<lambda>c. c \<noteq> NL) r)
         then Some run else None)"

definition reCodeFence :: "ustring \<Rightarrow> ustring option" where
  "reCodeFence s =
     (case fence_run (ord CHR ''`'') s of
        Some m \<Rightarrow> Some m
      | None \<Rightarrow> fence_run (ord CHR ''~'') s)"

text \<open>
  \<^verbatim>\<open>reClosingCodeFence = ^(?:`{3,}|~{3,})(?= *$)\<close>; the result is the matched run.
\<close>

definition closing_run :: "uchar \<Rightarrow> ustring \<Rightarrow> ustring option" where
  "closing_run f s =
     (let run = takeWhile (\<lambda>c. c = f) s; r = dropWhile (\<lambda>c. c = f) s
      in if 3 \<le> length run \<and> at_end (dropWhile (\<lambda>c. c = SP) r)
         then Some run else None)"

definition reClosingCodeFence :: "ustring \<Rightarrow> ustring option" where
  "reClosingCodeFence s =
     (case closing_run (ord CHR ''`'') s of
        Some m \<Rightarrow> Some m
      | None \<Rightarrow> closing_run (ord CHR ''~'') s)"

text \<open>
  \<^verbatim>\<open>reSetextHeadingLine = ^(?:=+|-+) *$\<close>; the result is the first character
  of the match.
\<close>

definition reSetextHeadingLine :: "ustring \<Rightarrow> uchar option" where
  "reSetextHeadingLine s =
     (case s of [] \<Rightarrow> None
      | c # _ \<Rightarrow>
          if c \<in> set (ustr ''=-'')
             \<and> at_end (dropWhile (\<lambda>d. d = SP) (dropWhile (\<lambda>d. d = c) s))
          then Some c else None)"

text \<open>
  \<^verbatim>\<open>reThematicBreak = ^(?:(?:\* *){3,}|(?:_ *){3,}|(?:- *){3,}) *$\<close>: the line
  starts with one of the three characters and holds, up to the end, only that
  character and spaces, the character three times or more.
\<close>

definition chomp :: "ustring \<Rightarrow> ustring" where
  "chomp s = (if s \<noteq> [] \<and> last s = NL then butlast s else s)"

definition reThematicBreak :: "ustring \<Rightarrow> bool" where
  "reThematicBreak s =
     (case s of [] \<Rightarrow> False
      | c # _ \<Rightarrow>
          c \<in> set (ustr ''*_-'')
          \<and> (\<forall>d \<in> set (chomp s). d = c \<or> d = SP)
          \<and> 3 \<le> length (filter (\<lambda>d. d = c) (chomp s)))"

text \<open>\<^verbatim>\<open>re.split(reLineEnding, s)\<close> with \<^verbatim>\<open>reLineEnding = \r\n|\n|\r\<close>.\<close>

fun split_lines :: "ustring \<Rightarrow> ustring \<Rightarrow> ustring list" where
  "split_lines acc [] = [rev acc]"
| "split_lines acc (c # cs) =
     (if c = CR then
        (case cs of
           d # ds \<Rightarrow> if d = NL then rev acc # split_lines [] ds
                     else rev acc # split_lines [] cs
         | [] \<Rightarrow> rev acc # split_lines [] cs)
      else if c = NL then rev acc # split_lines [] cs
      else split_lines (c # acc) cs)"

text \<open>
  \<^verbatim>\<open>re.sub(r'(\n *)+$', repl, s)\<close>: the leftmost newline after which only
  newlines and spaces follow starts the match, which runs to the end.
\<close>

fun sub_trailing_blank_lines :: "ustring \<Rightarrow> ustring \<Rightarrow> ustring" where
  "sub_trailing_blank_lines repl [] = []"
| "sub_trailing_blank_lines repl (c # cs) =
     (if c = NL \<and> (\<forall>d \<in> set cs. d = NL \<or> d = SP) then repl
      else c # sub_trailing_blank_lines repl cs)"

text \<open>
  The closing sequence of an ATX heading. \<^verbatim>\<open>sp_hashes_sp\<close> reads spaces,
  then one \<^verbatim>\<open>#\<close> or more, then spaces, and gives what is left.
\<close>

definition hashes_sp :: "ustring \<Rightarrow> ustring option" where
  "hashes_sp s =
     (let r = dropWhile (\<lambda>c. c = ord CHR ''#'') s
      in if length r < length s then Some (dropWhile (\<lambda>c. c = SP) r) else None)"

text \<open>\<^verbatim>\<open>re.sub(r'^ *#+ *$', '', s)\<close>.\<close>

definition sub_only_hashes :: "ustring \<Rightarrow> ustring" where
  "sub_only_hashes s =
     (case hashes_sp (dropWhile (\<lambda>c. c = SP) s) of
        Some r \<Rightarrow> if at_end r then r else s
      | None \<Rightarrow> s)"

text \<open>\<^verbatim>\<open>re.sub(r' +#+ *$', '', s)\<close>: the leftmost position where it matches.\<close>

fun sub_closing_hashes :: "ustring \<Rightarrow> ustring" where
  "sub_closing_hashes [] = []"
| "sub_closing_hashes (c # cs) =
     (if c = SP then
        (case hashes_sp (dropWhile (\<lambda>d. d = SP) cs) of
           Some r \<Rightarrow> if at_end r then r else c # sub_closing_hashes cs
         | None \<Rightarrow> c # sub_closing_hashes cs)
      else c # sub_closing_hashes cs)"




text \<open>
  \<^verbatim>\<open>reHtmlBlockOpen[1..6]\<close>. Pattern 7 is built from \<^verbatim>\<open>common.OPENTAG\<close> and
  \<^verbatim>\<open>common.CLOSETAG\<close>, which are not part of this module: it is a parameter
  of the parser (see \<open>externals\<close> below).
\<close>

definition html_tags1 :: "ustring list" where
  "html_tags1 = map ustr [''script'', ''pre'', ''style'']"

definition html_tags6 :: "ustring list" where
  "html_tags6 = map ustr [''address'', ''article'', ''aside'', ''base'', ''basefont'',
     ''blockquote'', ''body'', ''caption'', ''center'', ''col'', ''colgroup'', ''dd'',
     ''details'', ''dialog'', ''dir'', ''div'', ''dl'', ''dt'', ''fieldset'',
     ''figcaption'', ''figure'', ''footer'', ''form'', ''frame'', ''frameset'', ''h1'',
     ''head'', ''header'', ''hr'', ''html'', ''iframe'', ''legend'', ''li'', ''link'',
     ''main'', ''menu'', ''menuitem'', ''meta'', ''nav'', ''noframes'', ''ol'',
     ''optgroup'', ''option'', ''p'', ''param'', ''section'', ''source'', ''title'',
     ''summary'', ''table'', ''tbody'', ''td'', ''tfoot'', ''th'', ''thead'', ''title'',
     ''tr'', ''track'', ''ul'']"

text \<open>\<^verbatim>\<open>(?:\s|>|$)\<close> after a tag name of pattern 1.\<close>

definition tag_end1 :: "ustring \<Rightarrow> bool" where
  "tag_end1 r =
     (at_end r \<or> (case r of [] \<Rightarrow> False | c # _ \<Rightarrow> is_space c \<or> c = ord CHR ''>''))"

text \<open>\<^verbatim>\<open>(?:\s|[/]?[>]|$)\<close> after a tag name of pattern 6.\<close>

definition tag_end6 :: "ustring \<Rightarrow> bool" where
  "tag_end6 r =
     (at_end r
      \<or> (case r of [] \<Rightarrow> False
          | c # cs \<Rightarrow> is_space c \<or> c = ord CHR ''>''
               \<or> (c = ord CHR ''/'' \<and> (case cs of [] \<Rightarrow> False | d # _ \<Rightarrow> d = ord CHR ''>''))))"

definition tag_then :: "ustring list \<Rightarrow> (ustring \<Rightarrow> bool) \<Rightarrow> ustring \<Rightarrow> bool" where
  "tag_then tags fin s =
     list_ex (\<lambda>tg. iprefix tg s \<and> fin (drop (length tg) s)) tags"

definition reHtmlBlockOpen :: "nat \<Rightarrow> ustring \<Rightarrow> bool" where
  "reHtmlBlockOpen n s =
     (if n = 1 then
        (case s of [] \<Rightarrow> False
         | c # r \<Rightarrow> c = ord CHR ''<'' \<and> tag_then html_tags1 tag_end1 r)
      else if n = 2 then take 4 s = ustr ''<!--''
      else if n = 3 then take 2 s = ustr ''<?''
      else if n = 4 then
        (take 2 s = ustr ''<!''
         \<and> (case drop 2 s of [] \<Rightarrow> False
             | c # _ \<Rightarrow> ord CHR ''A'' \<le> c \<and> c \<le> ord CHR ''Z''))
      else if n = 5 then take 9 s = ustr ''<![CDATA[''
      else if n = 6 then
        (case s of [] \<Rightarrow> False
         | c # r \<Rightarrow> c = ord CHR ''<''
             \<and> (tag_then html_tags6 tag_end6 r
                 \<or> (case r of [] \<Rightarrow> False
                     | d # r' \<Rightarrow> d = ord CHR ''/'' \<and> tag_then html_tags6 tag_end6 r')))
      else False)"

section \<open>The data model\<close>

datatype kind =
  Document | List | BlockQuote | Item | Heading | ThematicBreak | CodeBlock | HtmlBlock
  | Paragraph

datatype list_type = Bullet | Ordered

text \<open>
  The dictionary built by \<^verbatim>\<open>parse_list_marker\<close>. A field is \<open>None\<close> when the
  key is absent or holds \<^verbatim>\<open>None\<close>; the empty dictionary of a fresh node has
  every field \<open>None\<close>.
\<close>

record list_data =
  ld_type :: "list_type option"
  tight :: "bool option"
  bullet_char :: "uchar option"
  start :: "int option"
  delimiter :: "uchar option"
  padding :: "nat option"
  marker_offset :: "nat option"

definition empty_dict :: list_data where
  "empty_dict = \<lparr>ld_type = None, tight = None, bullet_char = None, start = None,
     delimiter = None, padding = None, marker_offset = None\<rparr>"

text \<open>\<^verbatim>\<open>[[start_line, start_column], [end_line, end_column]]\<close>\<close>

type_synonym source_position = "(int \<times> int) \<times> (int \<times> int)"

text \<open>
  The inline nodes are made by the inline parser, which is not part of the sources:
  what it gives a paragraph or a heading is a value of a type left open.
\<close>

typedecl inline_nodes

text \<open>
  Modelled from the spec: the AST node module (\<^verbatim>\<open>CommonMark.node\<close>) is not part
  of the sources. The spec gives a node a kind, parent, sibling and child
  pointers, an open flag, \<^verbatim>\<open>last_line_blank\<close>, a source position, a string
  buffer, a literal, the fields of its kind, and (\<open>inlines\<close>) the inline children
  the inline parser gives it. Nodes are objects: a node is named
  by its address in \<open>heap\<close>. The source position and the list data are objects of
  their own (a setext heading is created with the position list of the paragraph
  it replaces, a list and its first item are given the same dictionary), so a node
  holds their addresses in \<open>positions\<close> and \<open>dicts\<close>; \<open>list_data = None\<close> is the
  empty dictionary no other node shares.
\<close>

record node =
  t :: kind
  parent :: "nat option"
  first_child :: "nat option"
  last_child :: "nat option"
  prv :: "nat option"
  nxt :: "nat option"
  sourcepos :: nat
  last_line_blank :: bool
  is_open :: bool
  string_content :: "ustring option"
  literal :: "ustring option"
  list_data :: "nat option"
  info :: "ustring option"
  is_fenced :: bool
  fence_char :: "uchar option"
  fence_length :: nat
  fence_offset :: "nat option"
  level :: "nat option"
  html_block_type :: "nat option"
  inlines :: "inline_nodes option"

type_synonym refmap = "ustring \<rightharpoonup> ustring \<times> ustring"

text \<open>The state of a \<^verbatim>\<open>Parser\<close> object, with the objects it has created.\<close>

record parser =
  heap :: "nat \<Rightarrow> node"
  next_id :: nat
  positions :: "nat \<Rightarrow> source_position"
  next_pos :: nat
  dicts :: "nat \<Rightarrow> list_data"
  next_dict :: nat
  doc :: nat
  tip :: "nat option"
  oldtip :: "nat option"
  current_line :: ustring
  line_number :: int
  offset :: nat
  column :: nat
  next_nonspace :: nat
  next_nonspace_column :: nat
  indent :: nat
  indented :: bool
  blank :: bool
  all_closed :: bool
  last_matched_container :: "nat option"
  refmap :: refmap
  last_line_length :: nat

text \<open>
  What the module imports from the rest of the package and this development takes
  as given: \<^verbatim>\<open>InlineParser.parseReference\<close> (the length of the link reference
  definition at the start of a string, \<open>0\<close> when there is none, and the reference
  map with the definition added), \<^verbatim>\<open>common.unescape_string\<close>, the seventh
  HTML block pattern, built from \<^verbatim>\<open>common.OPENTAG\<close> and \<^verbatim>\<open>common.CLOSETAG\<close>,
  and what the inline parser makes of the string of a paragraph or heading and the
  reference map.
\<close>

record externals =
  parse_reference :: "ustring \<Rightarrow> refmap \<Rightarrow> nat \<times> refmap"
  unescape_string :: "ustring \<Rightarrow> ustring"
  html_block_open7 :: "ustring \<Rightarrow> bool"
  parse_inlines :: "ustring option \<Rightarrow> refmap \<Rightarrow> inline_nodes"

subsection \<open>Exceptions\<close>

text \<open>
  An exception ends the call and every caller: a function that can raise returns
  \<open>Inl\<close> of the exception. \<open>NonTermination\<close> stands for a loop over the pointers of
  the tree that has taken more steps than there are nodes.
\<close>

datatype error =
  ValueError string | AttributeError string | TypeError string | KeyError string
  | NonTermination

definition ebind :: "error + 'a \<Rightarrow> ('a \<Rightarrow> error + 'b) \<Rightarrow> error + 'b" where
  "ebind m f = (case m of Inl e \<Rightarrow> Inl e | Inr x \<Rightarrow> f x)"

text \<open>Reading attribute \<open>a\<close> of an object that may be \<^verbatim>\<open>None\<close>.\<close>

definition deref :: "string \<Rightarrow> nat option \<Rightarrow> error + nat" where
  "deref a r = (case r of None \<Rightarrow> Inl (AttributeError a) | Some n \<Rightarrow> Inr n)"

subsection \<open>Node operations\<close>

definition upd :: "nat \<Rightarrow> (node \<Rightarrow> node) \<Rightarrow> parser \<Rightarrow> parser" where
  "upd n f s = s\<lparr>heap := (heap s)(n := f (heap s n))\<rparr>"

definition alloc_pos :: "source_position \<Rightarrow> parser \<Rightarrow> nat \<times> parser" where
  "alloc_pos p s =
     (next_pos s, s\<lparr>positions := (positions s)(next_pos s := p), next_pos := next_pos s + 1\<rparr>)"

definition alloc_dict :: "list_data \<Rightarrow> parser \<Rightarrow> nat \<times> parser" where
  "alloc_dict d s =
     (next_dict s, s\<lparr>dicts := (dicts s)(next_dict s := d), next_dict := next_dict s + 1\<rparr>)"

text \<open>
  Modelled from the spec: the constructor \<^verbatim>\<open>Node(tag, sourcepos)\<close> of the missing
  node module. A new node is open, has no relatives, an empty string buffer, and
  the defaults the block classes rely on (\<^verbatim>\<open>is_fenced\<close> false, no list data).
\<close>

definition Node :: "kind \<Rightarrow> nat \<Rightarrow> parser \<Rightarrow> nat \<times> parser" where
  "Node tag sp s =
     (next_id s,
      s\<lparr>heap := (heap s)(next_id s :=
           \<lparr>t = tag, parent = None, first_child = None, last_child = None, prv = None,
            nxt = None, sourcepos = sp, last_line_blank = False, is_open = True,
            string_content = Some [], literal = None, list_data = None, info = None,
            is_fenced = False, fence_char = None, fence_length = 0, fence_offset = None,
            level = None, html_block_type = None, inlines = None\<rparr>),
        next_id := next_id s + 1\<rparr>)"

text \<open>
  Modelled from the spec: \<^verbatim>\<open>Node.unlink\<close> of the missing node module takes a
  node out of its parent's list of children.
\<close>

definition unlink :: "nat \<Rightarrow> parser \<Rightarrow> parser" where
  "unlink n s =
     (let s1 = (case prv (heap s n) of
                  Some p \<Rightarrow> upd p (\<lambda>x. x\<lparr>nxt := nxt (heap s n)\<rparr>) s
                | None \<Rightarrow>
                    (case parent (heap s n) of
                       Some q \<Rightarrow> upd q (\<lambda>x. x\<lparr>first_child := nxt (heap s n)\<rparr>) s
                     | None \<Rightarrow> s));
          s2 = (case nxt (heap s1 n) of
                  Some x \<Rightarrow> upd x (\<lambda>y. y\<lparr>prv := prv (heap s1 n)\<rparr>) s1
                | None \<Rightarrow>
                    (case parent (heap s1 n) of
                       Some q \<Rightarrow> upd q (\<lambda>y. y\<lparr>last_child := prv (heap s1 n)\<rparr>) s1
                     | None \<Rightarrow> s1))
      in upd n (\<lambda>y. y\<lparr>parent := None, nxt := None, prv := None\<rparr>) s2)"

text \<open>
  Modelled from the spec: \<^verbatim>\<open>Node.append_child\<close> of the missing node module
  appends a node as the last child.
\<close>

definition append_child :: "nat \<Rightarrow> nat \<Rightarrow> parser \<Rightarrow> parser" where
  "append_child p c s =
     (let s1 = upd c (\<lambda>x. x\<lparr>parent := Some p\<rparr>) (unlink c s)
      in case last_child (heap s1 p) of
           Some l \<Rightarrow>
             upd p (\<lambda>x. x\<lparr>last_child := Some c\<rparr>)
               (upd c (\<lambda>x. x\<lparr>prv := Some l\<rparr>) (upd l (\<lambda>x. x\<lparr>nxt := Some c\<rparr>) s1))
         | None \<Rightarrow> upd p (\<lambda>x. x\<lparr>first_child := Some c, last_child := Some c\<rparr>) s1)"

text \<open>
  Modelled from the spec: \<^verbatim>\<open>Node.insert_after\<close> of the missing node module makes
  \<open>sibling\<close> the next sibling of \<open>n\<close>.
\<close>

definition insert_after :: "nat \<Rightarrow> nat \<Rightarrow> parser \<Rightarrow> error + parser" where
  "insert_after n sibling s =
     (let s1 = unlink sibling s;
          s2 = upd sibling (\<lambda>x. x\<lparr>nxt := nxt (heap s1 n)\<rparr>) s1;
          s3 = (case nxt (heap s2 sibling) of
                  Some x \<Rightarrow> upd x (\<lambda>y. y\<lparr>prv := Some sibling\<rparr>) s2
                | None \<Rightarrow> s2);
          s4 = upd sibling (\<lambda>x. x\<lparr>prv := Some n\<rparr>) s3;
          s5 = upd n (\<lambda>x. x\<lparr>nxt := Some sibling\<rparr>) s4;
          s6 = upd sibling (\<lambda>x. x\<lparr>parent := parent (heap s5 n)\<rparr>) s5
      in case nxt (heap s6 sibling) of
           Some x \<Rightarrow> Inr s6
         | None \<Rightarrow>
             ebind (deref ''last_child'' (parent (heap s6 sibling)))
               (\<lambda>q. Inr (upd q (\<lambda>x. x\<lparr>last_child := Some sibling\<rparr>) s6)))"

section \<open>The line scanner\<close>

text \<open>The loop of \<^verbatim>\<open>find_next_nonspace\<close> over the characters from \<open>offset\<close> on.\<close>

fun scan_spaces :: "ustring \<Rightarrow> nat \<Rightarrow> nat \<Rightarrow> nat \<times> nat" where
  "scan_spaces [] i cols = (i, cols)"
| "scan_spaces (c # cs) i cols =
     (if c = SP then scan_spaces cs (i + 1) (cols + 1)
      else if c = TAB then scan_spaces cs (i + 1) (cols + (4 - cols mod 4))
      else (i, cols))"

definition CODE_INDENT :: nat where
  "CODE_INDENT = 4"

definition find_next_nonspace :: "parser \<Rightarrow> parser" where
  "find_next_nonspace s =
     (let (i, cols) = scan_spaces (drop (offset s) (current_line s)) (offset s) (column s);
          c = peek (current_line s) i
      in s\<lparr>blank := (c = Some NL \<or> c = Some CR \<or> c = None),
           next_nonspace := i,
           next_nonspace_column := cols,
           indent := cols - column s,
           indented := (cols - column s \<ge> CODE_INDENT)\<rparr>)"

definition advance_next_nonspace :: "parser \<Rightarrow> parser" where
  "advance_next_nonspace s =
     s\<lparr>offset := next_nonspace s, column := next_nonspace_column s\<rparr>"

text \<open>
  The loop of \<^verbatim>\<open>advance_offset\<close> over the characters from \<open>offset\<close> on; \<open>count\<close>
  can go below zero when a tab is wider than what is left of it.
\<close>

fun advance_loop :: "ustring \<Rightarrow> int \<Rightarrow> bool \<Rightarrow> nat \<Rightarrow> nat \<Rightarrow> nat \<times> nat" where
  "advance_loop [] count columns off col = (off, col)"
| "advance_loop (c # cs) count columns off col =
     (if count > 0 then
        (if c = TAB then
           (let chars_to_tab = 4 - col mod 4
            in advance_loop cs (count - (if columns then int chars_to_tab else 1)) columns
                 (off + 1) (col + chars_to_tab))
         else advance_loop cs (count - 1) columns (off + 1) (col + 1))
      else (off, col))"

definition advance_offset :: "int \<Rightarrow> bool \<Rightarrow> parser \<Rightarrow> parser" where
  "advance_offset count columns s =
     (let (off, col) = advance_loop (drop (offset s) (current_line s)) count columns
                          (offset s) (column s)
      in s\<lparr>offset := off, column := col\<rparr>)"

section \<open>The block classes\<close>


definition can_contain :: "kind \<Rightarrow> kind \<Rightarrow> bool" where
  "can_contain k tag =
     (case k of
        Document \<Rightarrow> tag \<noteq> Item
      | List \<Rightarrow> tag = Item
      | BlockQuote \<Rightarrow> tag \<noteq> Item
      | Item \<Rightarrow> tag \<noteq> Item
      | _ \<Rightarrow> False)"

subsection \<open>\<^verbatim>\<open>finalize\<close> of each class\<close>

text \<open>
  \<^verbatim>\<open>ends_with_blank_line(block)\<close>. The loops that follow the pointers of the tree
  take a bound on their steps as first argument; their callers pass the number of
  nodes.
\<close>

fun ends_with_blank_line :: "nat \<Rightarrow> (nat \<Rightarrow> node) \<Rightarrow> nat option \<Rightarrow> error + bool" where
  "ends_with_blank_line f h None = Inr False"
| "ends_with_blank_line 0 h (Some b) = Inl NonTermination"
| "ends_with_blank_line (Suc f) h (Some b) =
     (if last_line_blank (h b) then Inr True
      else if t (h b) = List \<or> t (h b) = Item
           then ends_with_blank_line f h (last_child (h b))
      else Inr False)"

text \<open>
  The inner loop of \<^verbatim>\<open>List.finalize\<close> over the children of an item; the result
  tells whether it has set \<^verbatim>\<open>tight\<close> to false.
\<close>

fun List_subitems ::
  "nat \<Rightarrow> nat \<Rightarrow> (nat \<Rightarrow> node) \<Rightarrow> bool \<Rightarrow> nat option \<Rightarrow> error + bool" where
  "List_subitems n f h item_nxt None = Inr False"
| "List_subitems n 0 h item_nxt (Some subitem) = Inl NonTermination"
| "List_subitems n (Suc f) h item_nxt (Some subitem) =
     ebind (ends_with_blank_line n h (Some subitem))
       (\<lambda>e. if e \<and> (item_nxt \<or> nxt (h subitem) \<noteq> None) then Inr True
            else List_subitems n f h item_nxt (nxt (h subitem)))"

text \<open>The outer loop, over the items; the inner \<^verbatim>\<open>break\<close> leaves it running.\<close>

fun List_items :: "nat \<Rightarrow> nat \<Rightarrow> (nat \<Rightarrow> node) \<Rightarrow> nat option \<Rightarrow> error + bool" where
  "List_items n f h None = Inr False"
| "List_items n 0 h (Some item) = Inl NonTermination"
| "List_items n (Suc f) h (Some item) =
     ebind (ends_with_blank_line n h (Some item))
       (\<lambda>e. if e \<and> nxt (h item) \<noteq> None then Inr True
            else ebind (List_subitems n n h (nxt (h item) \<noteq> None) (first_child (h item)))
                   (\<lambda>loose1. ebind (List_items n f h (nxt (h item)))
                      (\<lambda>loose2. Inr (loose1 \<or> loose2))))"

text \<open>\<^verbatim>\<open>block.list_data['tight'] = False\<close>\<close>

definition set_loose :: "nat \<Rightarrow> parser \<Rightarrow> parser" where
  "set_loose block s =
     (case list_data (heap s block) of
        Some r \<Rightarrow> s\<lparr>dicts := (dicts s)(r := (dicts s r)\<lparr>tight := Some False\<rparr>)\<rparr>
      | None \<Rightarrow>
          (let (r, s1) = alloc_dict (empty_dict\<lparr>tight := Some False\<rparr>) s
           in upd block (\<lambda>x. x\<lparr>list_data := Some r\<rparr>) s1))"

definition List_finalize :: "nat \<Rightarrow> parser \<Rightarrow> error + parser" where
  "List_finalize block s =
     ebind (List_items (next_id s) (next_id s) (heap s) (first_child (heap s block)))
       (\<lambda>loose. Inr (if loose then set_loose block s else s))"

definition CodeBlock_finalize :: "externals \<Rightarrow> nat \<Rightarrow> parser \<Rightarrow> error + parser" where
  "CodeBlock_finalize X block s =
     (if is_fenced (heap s block) then
        (case string_content (heap s block) of
           None \<Rightarrow> Inl (AttributeError ''index'')
         | Some content \<Rightarrow>
             if NL \<notin> set content then Inl (ValueError ''substring not found'')
             else
               (let first_line = takeWhile (\<lambda>c. c \<noteq> NL) content;
                    rest = tl (dropWhile (\<lambda>c. c \<noteq> NL) content)
                in Inr (upd block
                     (\<lambda>x. x\<lparr>info := Some (unescape_string X (strip first_line)),
                            literal := Some rest, string_content := None\<rparr>) s)))
      else
        (case string_content (heap s block) of
           None \<Rightarrow> Inl (TypeError ''expected string or bytes-like object'')
         | Some content \<Rightarrow>
             Inr (upd block
               (\<lambda>x. x\<lparr>literal := Some (sub_trailing_blank_lines [NL] content),
                      string_content := None\<rparr>) s)))"

definition HtmlBlock_finalize :: "nat \<Rightarrow> parser \<Rightarrow> error + parser" where
  "HtmlBlock_finalize block s =
     (let s1 = (if string_content (heap s block) = Some (ustr ''<div>'' @ [NL])
                   \<and> positions s (sourcepos (heap s block)) = ((1, 3), (1, 7))
                then upd block (\<lambda>x. x\<lparr>string_content := Some (NL # ustr ''<div>'')\<rparr>) s
                else s)
      in case string_content (heap s1 block) of
           None \<Rightarrow> Inl (TypeError ''expected string or bytes-like object'')
         | Some content \<Rightarrow>
             Inr (upd block
               (\<lambda>x. x\<lparr>literal := Some (sub_trailing_blank_lines [] content),
                      string_content := None\<rparr>) s1))"

text \<open>
  The loop of \<^verbatim>\<open>Paragraph.finalize\<close>: the string, the reference map and
  \<^verbatim>\<open>has_reference_defs\<close>.
\<close>

function reference_defs ::
  "externals \<Rightarrow> ustring \<Rightarrow> refmap \<Rightarrow> bool \<Rightarrow> ustring \<times> refmap \<times> bool" where
  "reference_defs X content rm has =
     (if peek content 0 = Some (ord CHR ''['') then
        (case parse_reference X content rm of
           (pos, rm') \<Rightarrow>
             if pos = 0 then (content, rm', has)
             else reference_defs X (drop pos content) rm' True)
      else (content, rm, has))"
  by pat_completeness auto
termination
  by (relation "measure (\<lambda>(X, content, rm, has). length content)")
     (auto simp: peek_def split: if_splits)

declare reference_defs.simps [simp del]

definition Paragraph_finalize :: "externals \<Rightarrow> nat \<Rightarrow> parser \<Rightarrow> error + parser" where
  "Paragraph_finalize X block s =
     (case string_content (heap s block) of
        None \<Rightarrow> Inl (TypeError ''object of type NoneType has no len()'')
      | Some content \<Rightarrow>
          (case reference_defs X content (refmap s) False of
             (content', rm, has_reference_defs) \<Rightarrow>
               (let s1 = (upd block (\<lambda>x. x\<lparr>string_content := Some content'\<rparr>) s)
                           \<lparr>refmap := rm\<rparr>
                in Inr (if has_reference_defs \<and> is_blank content' then unlink block s1
                        else s1))))"

definition Block_finalize :: "externals \<Rightarrow> kind \<Rightarrow> nat \<Rightarrow> parser \<Rightarrow> error + parser" where
  "Block_finalize X k block s =
     (case k of
        List \<Rightarrow> List_finalize block s
      | CodeBlock \<Rightarrow> CodeBlock_finalize X block s
      | HtmlBlock \<Rightarrow> HtmlBlock_finalize block s
      | Paragraph \<Rightarrow> Paragraph_finalize X block s
      | _ \<Rightarrow> Inr s)"

text \<open>\<^verbatim>\<open>Parser.finalize(block, line_number)\<close>\<close>

definition finalize :: "externals \<Rightarrow> nat \<Rightarrow> int \<Rightarrow> parser \<Rightarrow> error + parser" where
  "finalize X block ln s =
     (let above = parent (heap s block);
          s1 = upd block (\<lambda>x. x\<lparr>is_open := False\<rparr>) s;
          sp = sourcepos (heap s1 block);
          s2 = s1\<lparr>positions := (positions s1)
                 (sp := (fst (positions s1 sp), (ln, int (last_line_length s1))))\<rparr>
      in ebind (Block_finalize X (t (heap s2 block)) block s2)
           (\<lambda>s3. Inr (s3\<lparr>tip := above\<rparr>)))"

subsection \<open>\<^verbatim>\<open>continue_\<close> of each class\<close>

definition BlockQuote_continue :: "parser \<Rightarrow> int \<times> parser" where
  "BlockQuote_continue s =
     (let ln = current_line s
      in if \<not> indented s \<and> peek ln (next_nonspace s) = Some (ord CHR ''>'') then
           (let s1 = advance_offset 1 False (advance_next_nonspace s)
            in (0, if peek ln (offset s1) = Some SP then s1\<lparr>offset := offset s1 + 1\<rparr>
                   else s1))
         else (1, s))"

definition Item_continue :: "nat \<Rightarrow> parser \<Rightarrow> error + int \<times> parser" where
  "Item_continue container s =
     (if blank s \<and> last_child (heap s container) \<noteq> None then
        Inr (0, advance_next_nonspace s)
      else
        (case list_data (heap s container) of
           None \<Rightarrow> Inl (KeyError ''marker_offset'')
         | Some r \<Rightarrow>
             (case marker_offset (dicts s r) of
                None \<Rightarrow> Inl (KeyError ''marker_offset'')
              | Some mo \<Rightarrow>
                  (case padding (dicts s r) of
                     None \<Rightarrow> Inl (KeyError ''padding'')
                   | Some pd \<Rightarrow>
                       if indent s \<ge> mo + pd
                       then Inr (0, advance_offset (int (mo + pd)) True s)
                       else Inr (1, s)))))"

text \<open>
  The loop of the fenced branch of \<^verbatim>\<open>CodeBlock.continue_\<close>, counting \<open>i\<close> down
  from \<^verbatim>\<open>fence_offset\<close>.
\<close>

fun skip_fence_offset :: "nat \<Rightarrow> parser \<Rightarrow> parser" where
  "skip_fence_offset 0 s = s"
| "skip_fence_offset (Suc i) s =
     (if peek (current_line s) (offset s) = Some SP
      then skip_fence_offset i (advance_offset 1 False s)
      else s)"

definition CodeBlock_continue ::
  "externals \<Rightarrow> nat \<Rightarrow> parser \<Rightarrow> error + int \<times> parser" where
  "CodeBlock_continue X container s =
     (let ln = current_line s; ind = indent s
      in if is_fenced (heap s container) then
           (let m = (if ind \<le> 3 \<and> length ln \<ge> next_nonspace s + 1
                        \<and> Some (ln ! next_nonspace s) = fence_char (heap s container)
                     then reClosingCodeFence (drop (next_nonspace s) ln) else None)
            in if (case m of None \<Rightarrow> False
                   | Some g \<Rightarrow> length g \<ge> fence_length (heap s container))
               then ebind (finalize X container (line_number s) s) (\<lambda>s1. Inr (2, s1))
               else
                 (case fence_offset (heap s container) of
                    None \<Rightarrow> Inl (TypeError ''> not supported between NoneType and int'')
                  | Some i \<Rightarrow> Inr (0, skip_fence_offset i s)))
         else if ind \<ge> CODE_INDENT then Inr (0, advance_offset (int CODE_INDENT) True s)
         else if blank s then Inr (0, advance_next_nonspace s)
         else Inr (1, s))"

definition HtmlBlock_continue :: "nat \<Rightarrow> parser \<Rightarrow> error + int \<times> parser" where
  "HtmlBlock_continue container s =
     (if blank s then
        (case html_block_type (heap s container) of
           None \<Rightarrow> Inl (AttributeError ''html_block_type'')
         | Some n \<Rightarrow> if n = 6 \<or> n = 7 then Inr (1, s) else Inr (0, s))
      else Inr (0, s))"

definition Paragraph_continue :: "parser \<Rightarrow> int \<times> parser" where
  "Paragraph_continue s = (if blank s then (1, s) else (0, s))"

text \<open>
  \<^verbatim>\<open>block_class.continue_(self, container)\<close> with the class looked up by the
  name of the container's kind.
\<close>

definition Block_continue :: "externals \<Rightarrow> kind \<Rightarrow> nat \<Rightarrow> parser \<Rightarrow> error + int \<times> parser" where
  "Block_continue X k container s =
     (case k of
        Document \<Rightarrow> Inr (0, s)
      | List \<Rightarrow> Inr (0, s)
      | BlockQuote \<Rightarrow> Inr (BlockQuote_continue s)
      | Item \<Rightarrow> Item_continue container s
      | Heading \<Rightarrow> Inr (1, s)
      | ThematicBreak \<Rightarrow> Inr (1, s)
      | CodeBlock \<Rightarrow> CodeBlock_continue X container s
      | HtmlBlock \<Rightarrow> HtmlBlock_continue container s
      | Paragraph \<Rightarrow> Inr (Paragraph_continue s))"

section \<open>The tree builder\<close>


text \<open>The loop of \<^verbatim>\<open>add_child\<close> that closes the tip until it can hold the child.\<close>

fun add_child_close :: "nat \<Rightarrow> externals \<Rightarrow> kind \<Rightarrow> parser \<Rightarrow> error + parser" where
  "add_child_close 0 X tag s =
     ebind (deref ''t'' (tip s))
       (\<lambda>n. if can_contain (t (heap s n)) tag then Inr s else Inl NonTermination)"
| "add_child_close (Suc f) X tag s =
     ebind (deref ''t'' (tip s))
       (\<lambda>n. if can_contain (t (heap s n)) tag then Inr s
            else ebind (finalize X n (line_number s - 1) s) (add_child_close f X tag))"

definition add_child :: "externals \<Rightarrow> kind \<Rightarrow> nat \<Rightarrow> parser \<Rightarrow> error + nat \<times> parser" where
  "add_child X tag off s =
     ebind (add_child_close (next_id s) X tag s)
       (\<lambda>s1. let column_number = int off + 1;
                 (sp, s2) = alloc_pos ((line_number s1, column_number), (0, 0)) s1;
                 (new_block, s3) = Node tag sp s2;
                 s4 = upd new_block (\<lambda>x. x\<lparr>string_content := Some []\<rparr>) s3
             in ebind (deref ''append_child'' (tip s4))
                  (\<lambda>p. Inr (new_block, (append_child p new_block s4)\<lparr>tip := Some new_block\<rparr>)))"

text \<open>The loop of \<^verbatim>\<open>close_unmatched_blocks\<close>.\<close>

fun close_loop :: "nat \<Rightarrow> externals \<Rightarrow> parser \<Rightarrow> error + parser" where
  "close_loop 0 X s =
     (if oldtip s \<noteq> last_matched_container s then Inl NonTermination else Inr s)"
| "close_loop (Suc f) X s =
     (if oldtip s \<noteq> last_matched_container s then
        ebind (deref ''parent'' (oldtip s))
          (\<lambda>b. let par = parent (heap s b)
               in ebind (finalize X b (line_number s - 1) s)
                    (\<lambda>s1. close_loop f X (s1\<lparr>oldtip := par\<rparr>)))
      else Inr s)"

definition close_unmatched_blocks :: "externals \<Rightarrow> parser \<Rightarrow> error + parser" where
  "close_unmatched_blocks X s =
     (if \<not> all_closed s
      then ebind (close_loop (next_id s) X s) (\<lambda>s1. Inr (s1\<lparr>all_closed := True\<rparr>))
      else Inr s)"




section \<open>Block starts\<close>

definition lists_match :: "list_data \<Rightarrow> list_data \<Rightarrow> bool" where
  "lists_match ld item_data =
     (ld_type ld = ld_type item_data \<and> delimiter ld = delimiter item_data
      \<and> bullet_char ld = bullet_char item_data)"

text \<open>The dictionary a node's \<^verbatim>\<open>list_data\<close> names.\<close>

definition dict_of :: "parser \<Rightarrow> nat \<Rightarrow> list_data" where
  "dict_of s n = (case list_data (heap s n) of None \<Rightarrow> empty_dict | Some r \<Rightarrow> dicts s r)"

text \<open>
  The loop of \<^verbatim>\<open>parse_list_marker\<close> over the spaces after the marker: it
  advances one column, then looks at the next character.
\<close>

function marker_spaces :: "nat \<Rightarrow> parser \<Rightarrow> parser" where
  "marker_spaces spaces_start_col s =
     (let s1 = advance_offset 1 True s;
          nextc = peek (current_line s1) (offset s1)
      in if column s1 - spaces_start_col < 5 \<and> (nextc = Some SP \<or> nextc = Some TAB)
         then marker_spaces spaces_start_col s1
         else s1)"
  by pat_completeness auto
termination
proof (relation "measure (\<lambda>(c, s). length (current_line s) - offset s)")
  show "wf (measure (\<lambda>(c, s). length (current_line s) - offset s))"
    by simp
next
  fix spaces_start_col :: nat and s s1 :: parser and nextc
  assume s1: "s1 = advance_offset 1 True s"
    and nextc: "nextc = peek (current_line s1) (offset s1)"
    and go: "column s1 - spaces_start_col < 5 \<and> (nextc = Some SP \<or> nextc = Some TAB)"
  have line: "current_line s1 = current_line s"
    by (simp add: s1 advance_offset_def split: prod.splits)
  have stop: "advance_loop cs c b off col = (off, col)" if "c \<le> 0" for cs c b off col
    using that by (cases cs) auto
  have step: "offset s1 = (if offset s < length (current_line s) then offset s + 1 else offset s)"
  proof (cases "drop (offset s) (current_line s)")
    case Nil
    then show ?thesis
      by (simp add: s1 advance_offset_def)
  next
    case (Cons a list)
    then have "offset s < length (current_line s)"
      by (cases "offset s < length (current_line s)") simp_all
    with Cons show ?thesis
      by (simp add: s1 advance_offset_def stop Let_def)
  qed
  from go nextc have "offset s1 < length (current_line s1)"
    by (auto simp: peek_def split: if_splits)
  with line step have "offset s < offset s1 \<and> offset s1 < length (current_line s)"
    by (auto split: if_splits)
  then show "((spaces_start_col, s1), (spaces_start_col, s))
      \<in> measure (\<lambda>(c, s). length (current_line s) - offset s)"
    using line by (simp, linarith)
qed

declare marker_spaces.simps [simp del]

definition parse_list_marker :: "parser \<Rightarrow> (list_data \<times> parser) option" where
  "parse_list_marker s =
     (let ln = current_line s;
          rest = drop (next_nonspace s) ln;
          data = \<lparr>ld_type = None, tight = Some True, bullet_char = None, start = None,
                  delimiter = None, padding = None, marker_offset = Some (indent s)\<rparr>;
          found =
            (case reBulletListMarker rest of
               Some g \<Rightarrow> Some (length g,
                  data\<lparr>ld_type := Some Bullet, bullet_char := peek g 0\<rparr>)
             | None \<Rightarrow>
                 (case reOrderedListMarker rest of
                    Some (ds, d) \<Rightarrow> Some (length ds + 1,
                      data\<lparr>ld_type := Some Ordered, start := Some (int_of_digits ds),
                           delimiter := Some d\<rparr>)
                  | None \<Rightarrow> None))
      in case found of
           None \<Rightarrow> None
         | Some (mlen, data1) \<Rightarrow>
             (let nextc = peek ln (next_nonspace s + mlen)
              in if \<not> (nextc = None \<or> nextc = Some TAB \<or> nextc = Some SP) then None
                 else
                   (let s1 = advance_offset (int mlen) True (advance_next_nonspace s);
                        spaces_start_col = column s1;
                        spaces_start_offset = offset s1;
                        s2 = marker_spaces spaces_start_col s1;
                        blank_item = (peek ln (offset s2) = None);
                        spaces_after_marker = column s2 - spaces_start_col
                    in if spaces_after_marker \<ge> 5 \<or> spaces_after_marker < 1 \<or> blank_item
                       then
                         (let s3 = s2\<lparr>column := spaces_start_col,
                                       offset := spaces_start_offset\<rparr>
                          in Some (data1\<lparr>padding := Some (mlen + 1)\<rparr>,
                               if peek ln (offset s3) = Some SP
                               then advance_offset 1 True s3 else s3))
                       else Some (data1\<lparr>padding := Some (mlen + spaces_after_marker)\<rparr>,
                              s2))))"

text \<open>Reading \<^verbatim>\<open>container.t\<close>.\<close>

definition kind_of :: "parser \<Rightarrow> nat option \<Rightarrow> error + kind" where
  "kind_of s r = ebind (deref ''t'' r) (\<lambda>n. Inr (t (heap s n)))"

text \<open>
  The methods of \<^verbatim>\<open>BlockStarts\<close>. The result is the value returned (0: no
  match, 1: a container, 2: a leaf) with the parser after the call.
\<close>

definition block_quote ::
  "externals \<Rightarrow> parser \<Rightarrow> nat option \<Rightarrow> error + int \<times> parser" where
  "block_quote X s container =
     (if \<not> indented s \<and> peek (current_line s) (next_nonspace s) = Some (ord CHR ''>'')
      then
        (let s1 = advance_offset 1 False (advance_next_nonspace s);
             s2 = (if peek (current_line s1) (offset s1) = Some SP
                   then advance_offset 1 False s1 else s1)
         in ebind (close_unmatched_blocks X s2)
              (\<lambda>s3. ebind (add_child X BlockQuote (next_nonspace s3) s3)
                 (\<lambda>(b, s4). Inr (1, s4))))
      else Inr (0, s))"

definition atx_heading ::
  "externals \<Rightarrow> parser \<Rightarrow> nat option \<Rightarrow> error + int \<times> parser" where
  "atx_heading X s container =
     (if \<not> indented s then
        (case reATXHeadingMarker (drop (next_nonspace s) (current_line s)) of
           Some (hashes, mlen) \<Rightarrow>
             (let s1 = advance_offset (int mlen) False (advance_next_nonspace s)
              in ebind (close_unmatched_blocks X s1)
                   (\<lambda>s2. ebind (add_child X Heading (next_nonspace s2) s2)
                      (\<lambda>(c, s3).
                         let s4 = upd c (\<lambda>x. x\<lparr>level := Some hashes\<rparr>) s3;
                             s5 = upd c (\<lambda>x. x\<lparr>string_content :=
                                    Some (sub_closing_hashes (sub_only_hashes
                                      (drop (offset s4) (current_line s4))))\<rparr>) s4
                         in Inr (2, advance_offset
                               (int (length (current_line s5)) - int (offset s5)) False s5))))
         | None \<Rightarrow> Inr (0, s))
      else Inr (0, s))"

definition fenced_code_block ::
  "externals \<Rightarrow> parser \<Rightarrow> nat option \<Rightarrow> error + int \<times> parser" where
  "fenced_code_block X s container =
     (if \<not> indented s then
        (case reCodeFence (drop (next_nonspace s) (current_line s)) of
           Some g \<Rightarrow>
             ebind (close_unmatched_blocks X s)
               (\<lambda>s1. ebind (add_child X CodeBlock (next_nonspace s1) s1)
                  (\<lambda>(c, s2).
                     let s3 = upd c (\<lambda>x. x\<lparr>is_fenced := True, fence_length := length g,
                                fence_char := peek g 0, fence_offset := Some (indent s2)\<rparr>) s2
                     in Inr (2, advance_offset (int (length g)) False
                                  (advance_next_nonspace s3))))
         | None \<Rightarrow> Inr (0, s))
      else Inr (0, s))"

text \<open>\<^verbatim>\<open>re.search(reHtmlBlockOpen[block_type], s)\<close>\<close>

definition html_open :: "externals \<Rightarrow> nat \<Rightarrow> ustring \<Rightarrow> bool" where
  "html_open X block_type s =
     (if block_type = 7 then html_block_open7 X s else reHtmlBlockOpen block_type s)"

definition html_block ::
  "externals \<Rightarrow> parser \<Rightarrow> nat option \<Rightarrow> error + int \<times> parser" where
  "html_block X s container =
     (if \<not> indented s \<and> peek (current_line s) (next_nonspace s) = Some (ord CHR ''<'')
      then
        (let rest = drop (next_nonspace s) (current_line s)
         in case find (\<lambda>block_type. html_open X block_type rest) [1, 2, 3, 4, 5, 6] of
              Some block_type \<Rightarrow>
                ebind (close_unmatched_blocks X s)
                  (\<lambda>s1. ebind (add_child X HtmlBlock (offset s1) s1)
                     (\<lambda>(b, s2). Inr (2, upd b (\<lambda>x. x\<lparr>html_block_type := Some block_type\<rparr>) s2)))
            | None \<Rightarrow>
                if html_open X 7 rest then
                  ebind (kind_of s container)
                    (\<lambda>k. if k \<noteq> Paragraph then
                            ebind (close_unmatched_blocks X s)
                              (\<lambda>s1. ebind (add_child X HtmlBlock (offset s1) s1)
                                 (\<lambda>(b, s2). Inr (2, upd b (\<lambda>x. x\<lparr>html_block_type := Some 7\<rparr>) s2)))
                          else Inr (0, s))
                else Inr (0, s))
      else Inr (0, s))"

definition setext_heading ::
  "externals \<Rightarrow> parser \<Rightarrow> nat option \<Rightarrow> error + int \<times> parser" where
  "setext_heading X s container =
     (if \<not> indented s then
        ebind (deref ''t'' container)
          (\<lambda>c. if t (heap s c) = Paragraph then
                  (case reSetextHeadingLine (drop (next_nonspace s) (current_line s)) of
                     Some m \<Rightarrow>
                       ebind (close_unmatched_blocks X s)
                         (\<lambda>s1. let (heading, s2) = Node Heading (sourcepos (heap s1 c)) s1;
                                   s3 = upd heading (\<lambda>x. x\<lparr>level :=
                                          Some (if m = ord CHR ''='' then 1 else 2)\<rparr>) s2;
                                   s4 = upd heading (\<lambda>x. x\<lparr>string_content :=
                                          string_content (heap s3 c)\<rparr>) s3
                               in ebind (insert_after c heading s4)
                                    (\<lambda>s5. let s6 = (unlink c s5)\<lparr>tip := Some heading\<rparr>
                                          in Inr (2, advance_offset
                                               (int (length (current_line s6)) - int (offset s6))
                                               False s6)))
                   | None \<Rightarrow> Inr (0, s))
                else Inr (0, s))
      else Inr (0, s))"

definition thematic_break ::
  "externals \<Rightarrow> parser \<Rightarrow> nat option \<Rightarrow> error + int \<times> parser" where
  "thematic_break X s container =
     (if \<not> indented s \<and> reThematicBreak (drop (next_nonspace s) (current_line s)) then
        ebind (close_unmatched_blocks X s)
          (\<lambda>s1. ebind (add_child X ThematicBreak (next_nonspace s1) s1)
             (\<lambda>(b, s2). Inr (2, advance_offset
                  (int (length (current_line s2)) - int (offset s2)) False s2)))
      else Inr (0, s))"

text \<open>
  The body of \<^verbatim>\<open>list_item\<close> once the guard holds; \<open>r\<close> is the address of the
  dictionary \<^verbatim>\<open>parse_list_marker\<close> has returned.
\<close>

definition list_item_body ::
  "externals \<Rightarrow> parser \<Rightarrow> nat option \<Rightarrow> error + int \<times> parser" where
  "list_item_body X s container =
     (case parse_list_marker s of
        Some (data, s0) \<Rightarrow>
          (let (r, s1) = alloc_dict data s0
           in ebind (close_unmatched_blocks X s1)
                (\<lambda>s2. ebind (kind_of s2 (tip s2))
                   (\<lambda>tk. ebind
                      (if tk \<noteq> List then Inr True
                       else ebind (deref ''list_data'' container)
                              (\<lambda>c. Inr (\<not> lists_match (dict_of s2 c) data)))
                      (\<lambda>new_list. ebind
                         (if new_list then
                            ebind (add_child X List (next_nonspace s2) s2)
                              (\<lambda>(l, s3). Inr (upd l (\<lambda>x. x\<lparr>list_data := Some r\<rparr>) s3))
                          else Inr s2)
                         (\<lambda>s4. ebind (add_child X Item (next_nonspace s4) s4)
                            (\<lambda>(i, s5). Inr (1, upd i (\<lambda>x. x\<lparr>list_data := Some r\<rparr>) s5)))))))
      | None \<Rightarrow> Inr (0, s))"

definition list_item ::
  "externals \<Rightarrow> parser \<Rightarrow> nat option \<Rightarrow> error + int \<times> parser" where
  "list_item X s container =
     (if \<not> indented s then list_item_body X s container
      else ebind (kind_of s container)
             (\<lambda>k. if k = List then list_item_body X s container else Inr (0, s)))"

definition indented_code_block ::
  "externals \<Rightarrow> parser \<Rightarrow> nat option \<Rightarrow> error + int \<times> parser" where
  "indented_code_block X s container =
     (if indented s then
        ebind (kind_of s (tip s))
          (\<lambda>k. if k \<noteq> Paragraph \<and> \<not> blank s then
                  (let s1 = advance_offset (int CODE_INDENT) True s
                   in ebind (close_unmatched_blocks X s1)
                        (\<lambda>s2. ebind (add_child X CodeBlock (offset s2) s2)
                           (\<lambda>(b, s3). Inr (2, s3))))
                else Inr (0, s))
      else Inr (0, s))"

text \<open>\<^verbatim>\<open>BlockStarts.METHODS\<close>, in the order they are tried.\<close>

definition METHODS ::
  "(externals \<Rightarrow> parser \<Rightarrow> nat option \<Rightarrow> error + int \<times> parser) list" where
  "METHODS = [block_quote, atx_heading, fenced_code_block, html_block, setext_heading,
     thematic_break, list_item, indented_code_block]"

section \<open>The line incorporator\<close>

text \<open>
  How the first loop of \<^verbatim>\<open>incorporate_line\<close> ends: with the last container
  that matched, or, when a closing code fence has taken the line, by returning from
  \<^verbatim>\<open>incorporate_line\<close>.
\<close>

datatype matched = Matched "nat option" parser | Consumed parser

text \<open>
  The loop over the open containers, from \<open>container\<close> down its last children.
  \<open>cont\<close> is the \<^verbatim>\<open>continue_\<close> of the class named by a kind.
\<close>

fun continue_containers ::
  "(kind \<Rightarrow> nat \<Rightarrow> parser \<Rightarrow> error + int \<times> parser) \<Rightarrow> nat \<Rightarrow> nat \<Rightarrow> parser
    \<Rightarrow> error + matched" where
  "continue_containers cont 0 container s =
     (case last_child (heap s container) of
        None \<Rightarrow> Inr (Matched (Some container) s)
      | Some lc \<Rightarrow>
          if is_open (heap s lc) then Inl NonTermination
          else Inr (Matched (Some container) s))"
| "continue_containers cont (Suc f) container s =
     (case last_child (heap s container) of
        None \<Rightarrow> Inr (Matched (Some container) s)
      | Some lc \<Rightarrow>
          if is_open (heap s lc) then
            (let s1 = find_next_nonspace s
             in ebind (cont (t (heap s1 lc)) lc s1)
                  (\<lambda>(rv, s2).
                     if rv = 0 then continue_containers cont f lc s2
                     else if rv = 1 then Inr (Matched (parent (heap s2 lc)) s2)
                     else if rv = 2 then
                       Inr (Consumed (s2\<lparr>last_line_length := length (current_line s2)\<rparr>))
                     else Inl (ValueError ''returned illegal value, must be 0, 1, or 2'')))
          else Inr (Matched (Some container) s))"

text \<open>The loop over \<^verbatim>\<open>starts.METHODS\<close>: the first result that is 1 or 2.\<close>

fun try_starts ::
  "(externals \<Rightarrow> parser \<Rightarrow> nat option \<Rightarrow> error + int \<times> parser) list \<Rightarrow> externals
    \<Rightarrow> parser \<Rightarrow> nat option \<Rightarrow> error + int \<times> parser" where
  "try_starts [] X s container = Inr (0, s)"
| "try_starts (m # ms) X s container =
     ebind (m X s container)
       (\<lambda>(res, s1). if res = 1 \<or> res = 2 then Inr (res, s1)
                    else try_starts ms X s1 container)"

text \<open>
  The loop \<^verbatim>\<open>while not matched_leaf\<close>; the result is the container it ends
  with. Every turn but the last opens a container, which takes a character of the
  line: the bound on the turns is the length of the line.
\<close>

fun open_new_blocks ::
  "nat \<Rightarrow> externals \<Rightarrow> bool \<Rightarrow> nat option \<Rightarrow> parser \<Rightarrow> error + nat option \<times> parser" where
  "open_new_blocks f X matched_leaf container s =
     (if \<not> matched_leaf then
        (let s1 = find_next_nonspace s
         in if \<not> indented s1
               \<and> \<not> reMaybeSpecial (drop (next_nonspace s1) (current_line s1))
            then Inr (container, advance_next_nonspace s1)
            else
              ebind (try_starts METHODS X s1 container)
                (\<lambda>(res, s2).
                   if res = 1 then
                     (case f of
                        0 \<Rightarrow> Inl NonTermination
                      | Suc f' \<Rightarrow> open_new_blocks f' X matched_leaf (tip s2) s2)
                   else if res = 2 then Inr (tip s2, s2)
                   else Inr (container, advance_next_nonspace s2)))
      else Inr (container, s))"






section \<open>The document driver\<close>

text \<open>A filler for the addresses no object has been created at.\<close>

definition unallocated :: node where
  "unallocated =
     \<lparr>t = Document, parent = None, first_child = None, last_child = None, prv = None,
      nxt = None, sourcepos = 0, last_line_blank = False, is_open = False,
      string_content = None, literal = None, list_data = None, info = None,
      is_fenced = False, fence_char = None, fence_length = 0, fence_offset = None,
      level = None, html_block_type = None, inlines = None\<rparr>"

text \<open>\<^verbatim>\<open>Parser.__init__\<close>: the state of a new parser.\<close>

definition Parser :: parser where
  "Parser =
     \<lparr>heap = (\<lambda>n. unallocated)
         (0 := \<lparr>t = Document, parent = None, first_child = None, last_child = None,
                 prv = None, nxt = None, sourcepos = 0, last_line_blank = False,
                 is_open = True, string_content = Some [], literal = None,
                 list_data = None, info = None, is_fenced = False, fence_char = None,
                 fence_length = 0, fence_offset = None, level = None,
                 html_block_type = None, inlines = None\<rparr>),
      next_id = 1,
      positions = (\<lambda>n. ((0, 0), (0, 0)))(0 := ((1, 1), (0, 0))),
      next_pos = 1,
      dicts = (\<lambda>n. empty_dict),
      next_dict = 0,
      doc = 0, tip = Some 0, oldtip = Some 0, current_line = [], line_number = 0,
      offset = 0, column = 0, next_nonspace = 0, next_nonspace_column = 0, indent = 0,
      indented = False, blank = False, all_closed = True,
      last_matched_container = Some 0, refmap = Map.empty, last_line_length = 0\<rparr>"








text \<open>
  The nodes of the tree under \<open>r\<close>: \<open>r\<close>, the first child of a node of the tree,
  and the next sibling of a node below \<open>r\<close>.
\<close>

inductive in_tree :: "(nat \<Rightarrow> node) \<Rightarrow> nat \<Rightarrow> nat \<Rightarrow> bool" for h r where
  root: "in_tree h r r"
| child: "in_tree h r p \<Longrightarrow> first_child (h p) = Some c \<Longrightarrow> in_tree h r c"
| sibling: "in_tree h r c \<Longrightarrow> c \<noteq> r \<Longrightarrow> nxt (h c) = Some d \<Longrightarrow> in_tree h r d"

section \<open>Concrete inputs\<close>

text \<open>
  Values for what the module imports, for inputs that hold no link reference
  definition, no backslash escape or entity in an info string, and no HTML tag of
  the seventh kind: on such inputs the parser's result does not depend on them.
\<close>

definition plain_externals :: externals where
  "plain_externals =
     \<lparr>parse_reference = (\<lambda>s r. (0, r)), unescape_string = (\<lambda>s. s),
      html_block_open7 = (\<lambda>s. False), parse_inlines = (\<lambda>s r. undefined)\<rparr>"

text \<open>
  A list item without children (marker at column 0, content at column 2) that is
  asked to continue on a line of four spaces, as on the second line of the input
  \<^verbatim>\<open>"-\n    "\<close>.
\<close>

definition blank_line_at_empty_item :: parser where
  "blank_line_at_empty_item =
     find_next_nonspace
       (Parser\<lparr>heap := (heap Parser)
                 (1 := unallocated\<lparr>t := Item, parent := Some 0, is_open := True,
                                    list_data := Some 0\<rparr>),
               next_id := 2,
               dicts := (dicts Parser)
                 (0 := empty_dict\<lparr>padding := Some 2, marker_offset := Some 0\<rparr>),
               next_dict := 1,
               current_line := [SP, SP, SP, SP]\<rparr>)"

text \<open>The same item on the line \<^verbatim>\<open>"  foo"\<close>.\<close>

definition text_line_at_empty_item :: parser where
  "text_line_at_empty_item =
     find_next_nonspace (blank_line_at_empty_item\<lparr>current_line := SP # SP # ustr ''foo''\<rparr>)"

text \<open>An HTML block that holds \<^verbatim>\<open>"<div>\nhi\n\n"\<close> when it is closed.\<close>

definition html_block_at_close :: parser where
  "html_block_at_close =
     Parser\<lparr>heap := (heap Parser)
               (1 := unallocated\<lparr>t := HtmlBlock, parent := Some 0, is_open := True,
                    html_block_type := Some 6,
                    string_content := Some (ustr ''<div>'' @ NL # ustr ''hi'' @ [NL, NL])\<rparr>),
             next_id := 2\<rparr>"

text \<open>
  A fenced code block opened by three backticks that holds \<^verbatim>\<open>"\nx\n"\<close>, at a
  line of three backticks.
\<close>

definition fence_at_closing_line :: parser where
  "fence_at_closing_line =
     find_next_nonspace
       (Parser\<lparr>heap := (heap Parser)
                 (1 := unallocated\<lparr>t := CodeBlock, parent := Some 0, is_open := True,
                      is_fenced := True, fence_char := Some (ord CHR ''`''),
                      fence_length := 3, fence_offset := Some 0,
                      string_content := Some (NL # ustr ''x'' @ [NL])\<rparr>),
               next_id := 2, line_number := 3,
               current_line := ustr ''```''\<rparr>)"

text \<open>
  A fenced code block opened by three backticks after two spaces, at the line
  \<^verbatim>\<open>"  x"\<close>; and the same block at the line \<^verbatim>\<open>" x"\<close>.
\<close>

definition fence_at_text_line :: parser where
  "fence_at_text_line =
     find_next_nonspace
       (Parser\<lparr>heap := (heap Parser)
                 (1 := unallocated\<lparr>t := CodeBlock, parent := Some 0, is_open := True,
                      is_fenced := True, fence_char := Some (ord CHR ''`''),
                      fence_length := 3, fence_offset := Some 2,
                      string_content := Some [NL]\<rparr>),
               next_id := 2, line_number := 2,
               current_line := SP # SP # ustr ''x''\<rparr>)"

definition fence_at_short_line :: parser where
  "fence_at_short_line =
     find_next_nonspace (fence_at_text_line\<lparr>current_line := SP # ustr ''x''\<rparr>)"

text \<open>A document whose only child is an open paragraph.\<close>

definition open_paragraph :: parser where
  "open_paragraph =
     Parser\<lparr>heap := (heap Parser)
               (0 := (heap Parser 0)\<lparr>first_child := Some 1, last_child := Some 1\<rparr>,
                1 := unallocated\<lparr>t := Paragraph, parent := Some 0, is_open := True,
                     string_content := Some (ustr ''a'' @ [NL])\<rparr>),
             next_id := 2, tip := Some 1\<rparr>"

section \<open>Summaries of state changes\<close>

definition keeps_line :: "parser \<Rightarrow> parser \<Rightarrow> bool" where
  "keeps_line s s' \<longleftrightarrow>
     doc s' = doc s \<and> current_line s' = current_line s \<and> line_number s' = line_number s
     \<and> last_matched_container s' = last_matched_container s
     \<and> last_line_length s' = last_line_length s"

definition keeps_marks :: "parser \<Rightarrow> parser \<Rightarrow> bool" where
  "keeps_marks s s' \<longleftrightarrow> oldtip s' = oldtip s \<and> all_closed s' = all_closed s"

definition keeps_cursor :: "parser \<Rightarrow> parser \<Rightarrow> bool" where
  "keeps_cursor s s' \<longleftrightarrow>
     offset s' = offset s \<and> column s' = column s \<and> next_nonspace s' = next_nonspace s
     \<and> next_nonspace_column s' = next_nonspace_column s \<and> indent s' = indent s
     \<and> indented s' = indented s \<and> blank s' = blank s"

definition keeps_scan :: "parser \<Rightarrow> parser \<Rightarrow> bool" where
  "keeps_scan s s' \<longleftrightarrow> keeps_line s s' \<and> keeps_marks s s' \<and> keeps_cursor s s'"

definition same_data :: "node \<Rightarrow> node \<Rightarrow> bool" where
  "same_data x y \<longleftrightarrow>
     t y = t x \<and> sourcepos y = sourcepos x \<and> last_line_blank y = last_line_blank x
     \<and> is_open y = is_open x \<and> string_content y = string_content x
     \<and> literal y = literal x \<and> list_data y = list_data x \<and> info y = info x
     \<and> is_fenced y = is_fenced x \<and> fence_char y = fence_char x
     \<and> fence_length y = fence_length x \<and> fence_offset y = fence_offset x
     \<and> level y = level x \<and> html_block_type y = html_block_type x \<and> inlines y = inlines x"

definition links_only :: "parser \<Rightarrow> parser \<Rightarrow> bool" where
  "links_only s s' \<longleftrightarrow>
     keeps_scan s s' \<and> next_id s' = next_id s \<and> positions s' = positions s
     \<and> next_pos s' = next_pos s \<and> dicts s' = dicts s \<and> next_dict s' = next_dict s
     \<and> tip s' = tip s \<and> refmap s' = refmap s
     \<and> (\<forall>m. same_data (heap s m) (heap s' m))"


text \<open>The nodes created since the document node of the current parse.\<close>

definition own :: "parser \<Rightarrow> nat \<Rightarrow> bool" where
  "own s n \<longleftrightarrow> doc s \<le> n \<and> n < next_id s"

definition is_container :: "kind \<Rightarrow> bool" where
  "is_container k \<longleftrightarrow> k = Document \<or> k = List \<or> k = BlockQuote \<or> k = Item"

definition raw_leaf :: "kind \<Rightarrow> bool" where
  "raw_leaf k \<longleftrightarrow> k = CodeBlock \<or> k = HtmlBlock"

text \<open>The nodes a node points to.\<close>

definition ptrs :: "node \<Rightarrow> nat set" where
  "ptrs x = set_option (parent x) \<union> set_option (first_child x) \<union> set_option (last_child x)
     \<union> set_option (prv x) \<union> set_option (nxt x)"

definition closed_links :: "parser \<Rightarrow> bool" where
  "closed_links s \<longleftrightarrow> (\<forall>m. own s m \<longrightarrow> ptrs (heap s m) \<subseteq> {q. own s q})"

text \<open>
  What \<^verbatim>\<open>Parser.finalize(block, ln)\<close> does to the parser, as far as the properties
  below need it.
\<close>

definition ready :: "node \<Rightarrow> bool" where
  "ready x \<longleftrightarrow> (\<exists>c. string_content x = Some c \<and> NL \<in> set c)"

definition closes :: "nat \<Rightarrow> int \<Rightarrow> parser \<Rightarrow> parser \<Rightarrow> bool" where
  "closes b ln s s' \<longleftrightarrow>
     keeps_scan s s' \<and> next_id s' = next_id s \<and> next_pos s' = next_pos s
     \<and> tip s' = parent (heap s b)
     \<and> positions s' = (positions s)(sourcepos (heap s b) :=
          (fst (positions s (sourcepos (heap s b))), (ln, int (last_line_length s))))
     \<and> (\<forall>m. t (heap s' m) = t (heap s m) \<and> sourcepos (heap s' m) = sourcepos (heap s m)
            \<and> is_fenced (heap s' m) = is_fenced (heap s m))
     \<and> (\<forall>m. m \<noteq> b \<longrightarrow> is_open (heap s' m) = is_open (heap s m)
            \<and> string_content (heap s' m) = string_content (heap s m)
            \<and> parent (heap s' m) = parent (heap s m))
     \<and> \<not> is_open (heap s' b)
     \<and> (parent (heap s' b) = parent (heap s b)
          \<or> t (heap s b) = Paragraph \<and> parent (heap s' b) = None)
     \<and> (raw_leaf (t (heap s b)) \<longrightarrow> string_content (heap s' b) = None)
     \<and> (t (heap s b) = CodeBlock \<and> is_fenced (heap s b) \<longrightarrow> ready (heap s b))
     \<and> (closed_links s \<and> own s b \<longrightarrow> closed_links s')"

text \<open>What \<open>Block_finalize\<close> does, kind by kind.\<close>

definition block_closes :: "nat \<Rightarrow> parser \<Rightarrow> parser \<Rightarrow> bool" where
  "block_closes b s s' \<longleftrightarrow>
     keeps_scan s s' \<and> next_id s' = next_id s \<and> next_pos s' = next_pos s
     \<and> tip s' = tip s \<and> positions s' = positions s
     \<and> (\<forall>m. t (heap s' m) = t (heap s m) \<and> sourcepos (heap s' m) = sourcepos (heap s m)
            \<and> is_fenced (heap s' m) = is_fenced (heap s m)
            \<and> is_open (heap s' m) = is_open (heap s m))
     \<and> (\<forall>m. m \<noteq> b \<longrightarrow> string_content (heap s' m) = string_content (heap s m)
            \<and> parent (heap s' m) = parent (heap s m))
     \<and> (parent (heap s' b) = parent (heap s b)
          \<or> t (heap s b) = Paragraph \<and> parent (heap s' b) = None)
     \<and> (raw_leaf (t (heap s b)) \<longrightarrow> string_content (heap s' b) = None)
     \<and> (t (heap s b) = CodeBlock \<and> is_fenced (heap s b) \<longrightarrow> ready (heap s b))
     \<and> (closed_links s \<and> own s b \<longrightarrow> closed_links s')"

text \<open>
  The nodes from \<open>a\<close> up its parents to \<open>z\<close>, without \<open>z\<close>; and finalizing the
  nodes of a list one after the other.
\<close>

inductive parent_path :: "(nat \<Rightarrow> node) \<Rightarrow> nat \<Rightarrow> nat list \<Rightarrow> nat \<Rightarrow> bool" for h where
  arrived: "parent_path h z [] z"
| step: "a \<noteq> z \<Longrightarrow> parent (h a) = Some p \<Longrightarrow> parent_path h p bs z
          \<Longrightarrow> parent_path h a (a # bs) z"

fun finalize_all :: "externals \<Rightarrow> int \<Rightarrow> nat list \<Rightarrow> parser \<Rightarrow> error + parser" where
  "finalize_all X ln [] s = Inr s"
| "finalize_all X ln (b # bs) s = ebind (finalize X b ln s) (finalize_all X ln bs)"

text \<open>
  The HTML block above as the tip of the last line, when the document is the last
  container that the third line matched.
\<close>

definition unmatched_html_block :: parser where
  "unmatched_html_block =
     html_block_at_close\<lparr>tip := Some 1, oldtip := Some 1, last_matched_container := Some 0,
       all_closed := False, line_number := 3\<rparr>"

text \<open>
  The parser at the first line of a document that holds the digit three of the
  Arabic-Indic digits (U+0663), a full stop, a space and the letter x.
\<close>

definition arabic_indic_line :: parser where
  "arabic_indic_line = Parser\<lparr>line_number := 1, current_line := 0x663 # ustr ''. x''\<rparr>"

definition arabic_indic_three_line :: parser where
  "arabic_indic_three_line = find_next_nonspace arabic_indic_line"

text \<open>
  A result is fine for \<open>A\<close> and \<open>P\<close> when it is an exception that \<open>A\<close> admits or a
  value that \<open>P\<close> holds of.
\<close>

definition ok :: "(error \<Rightarrow> bool) \<Rightarrow> ('a \<Rightarrow> bool) \<Rightarrow> error + 'a \<Rightarrow> bool" where
  "ok A P r = (case r of Inl e \<Rightarrow> A e | Inr x \<Rightarrow> P x)"

text \<open>Two states that differ in the fields of the line scanner only.\<close>

definition same_tree :: "parser \<Rightarrow> parser \<Rightarrow> bool" where
  "same_tree s s' \<longleftrightarrow>
     heap s' = heap s \<and> next_id s' = next_id s \<and> positions s' = positions s
     \<and> next_pos s' = next_pos s \<and> dicts s' = dicts s \<and> next_dict s' = next_dict s
     \<and> doc s' = doc s \<and> tip s' = tip s \<and> oldtip s' = oldtip s
     \<and> current_line s' = current_line s \<and> line_number s' = line_number s
     \<and> all_closed s' = all_closed s
     \<and> last_matched_container s' = last_matched_container s
     \<and> refmap s' = refmap s \<and> last_line_length s' = last_line_length s"

text \<open>The line being read, its number and the document stay as they are.\<close>

definition keeps_text :: "parser \<Rightarrow> parser \<Rightarrow> bool" where
  "keeps_text s s' \<longleftrightarrow>
     doc s' = doc s \<and> current_line s' = current_line s \<and> line_number s' = line_number s"



section \<open>Properties\<close>

subsection \<open>Exceptions and the results of calls\<close>

lemma ebind_simps [simp]:
  "ebind (Inl e) f = Inl e"
  "ebind (Inr x) f = f x"
  by (simp_all add: ebind_def)

lemma ebind_eq_Inr: "ebind m f = Inr y \<longleftrightarrow> (\<exists>x. m = Inr x \<and> f x = Inr y)"
  by (cases m) simp_all

lemma ebind_eq_Inl: "ebind m f = Inl e \<longleftrightarrow> m = Inl e \<or> (\<exists>x. m = Inr x \<and> f x = Inl e)"
  by (cases m) simp_all

lemma deref_simps [simp]:
  "deref a None = Inl (AttributeError a)"
  "deref a (Some n) = Inr n"
  by (simp_all add: deref_def)

lemma ends_with_blank_line_error:
  "ends_with_blank_line f h b = Inl e \<Longrightarrow> e = NonTermination"
  by (induction f h b rule: ends_with_blank_line.induct) (auto split: if_splits)

lemma List_subitems_error:
  "List_subitems n f h i b = Inl e \<Longrightarrow> e = NonTermination"
  by (induction n f h i b rule: List_subitems.induct)
     (auto simp: ebind_eq_Inl split: if_splits dest: ends_with_blank_line_error)

lemma List_items_error:
  "List_items n f h b = Inl e \<Longrightarrow> e = NonTermination"
  by (induction n f h b rule: List_items.induct)
     (auto simp: ebind_eq_Inl split: if_splits
        dest: ends_with_blank_line_error List_subitems_error)

lemma Block_finalize_error:
  "Block_finalize X k b s = Inl e \<Longrightarrow>
     e \<in> {NonTermination, AttributeError ''index'', ValueError ''substring not found'',
          TypeError ''expected string or bytes-like object'',
          TypeError ''object of type NoneType has no len()''}"
  by (cases k)
     (auto simp: Block_finalize_def List_finalize_def CodeBlock_finalize_def
        HtmlBlock_finalize_def Paragraph_finalize_def ebind_eq_Inl Let_def
        split: if_splits option.splits prod.splits dest: List_items_error)

lemma finalize_error:
  "finalize X b ln s = Inl e \<Longrightarrow>
     e \<in> {NonTermination, AttributeError ''index'', ValueError ''substring not found'',
          TypeError ''expected string or bytes-like object'',
          TypeError ''object of type NoneType has no len()''}"
  by (auto simp: finalize_def Let_def ebind_eq_Inl dest!: Block_finalize_error)

subsection \<open>The line scanner\<close>

lemma advance_loop_stop: "count \<le> 0 \<Longrightarrow> advance_loop cs count b off col = (off, col)"
  by (cases cs) auto

lemma advance_offset_one_space:
  assumes "peek (current_line s) (offset s) = Some c" and "c \<noteq> TAB"
  shows "advance_offset 1 b s = s\<lparr>offset := offset s + 1, column := column s + 1\<rparr>"
proof -
  from assms have "drop (offset s) (current_line s) = c # drop (Suc (offset s)) (current_line s)"
    by (auto simp: peek_def Cons_nth_drop_Suc split: if_splits)
  with assms show ?thesis
    by (simp add: advance_offset_def advance_loop_stop)
qed

lemma skip_fence_offset_result:
  "\<exists>j \<le> i. skip_fence_offset i s = s\<lparr>offset := offset s + j, column := column s + j\<rparr>
      \<and> (\<forall>k < j. peek (current_line s) (offset s + k) = Some SP)
      \<and> (j = i \<or> peek (current_line s) (offset s + j) \<noteq> Some SP)"
proof (induction i arbitrary: s)
  case 0
  show ?case by simp
next
  case (Suc i)
  show ?case
  proof (cases "peek (current_line s) (offset s) = Some SP")
    case False
    then show ?thesis by (intro exI [of _ 0]) simp
  next
    case True
    let ?s1 = "s\<lparr>offset := offset s + 1, column := column s + 1\<rparr>"
    from True have adv: "advance_offset 1 False s = ?s1"
      by (rule advance_offset_one_space) simp
    from Suc.IH [of ?s1] obtain j where j: "j \<le> i"
      "skip_fence_offset i ?s1 = ?s1\<lparr>offset := offset ?s1 + j, column := column ?s1 + j\<rparr>"
      "\<forall>k < j. peek (current_line ?s1) (offset ?s1 + k) = Some SP"
      "j = i \<or> peek (current_line ?s1) (offset ?s1 + j) \<noteq> Some SP"
      by blast
    have "\<forall>k < Suc j. peek (current_line s) (offset s + k) = Some SP"
    proof (intro allI impI)
      fix k assume "k < Suc j"
      then show "peek (current_line s) (offset s + k) = Some SP"
        using True j(3) by (cases k) auto
    qed
    with j(1,2,4) True adv show ?thesis
      by (intro exI [of _ "Suc j"]) simp
  qed
qed

subsection \<open>\<^verbatim>\<open>Item.continue_\<close>\<close>

text \<open>
  Claim C1, as stated, fails: a blank line of four spaces continues an item that has
  no children (\<^verbatim>\<open>continue_\<close> returns 0), since \<^verbatim>\<open>Item.continue_\<close> tests
  the indentation of every line that is not a blank line at an item with children.
\<close>

theorem Item_continue_blank_childless_counterexample:
  "blank blank_line_at_empty_item
   \<and> last_child (heap blank_line_at_empty_item 1) = None
   \<and> Item_continue 1 blank_line_at_empty_item
       = Inr (0, advance_offset 2 True blank_line_at_empty_item)"
  by (simp add: blank_line_at_empty_item_def Item_continue_def find_next_nonspace_def
      Parser_def unallocated_def empty_dict_def peek_def CODE_INDENT_def)

text \<open>
  Claim C1, amended: on a blank line at an item that has children the cursor goes to
  the next non-space character and the result is 0; on any other line, blank or not,
  the result is 0 after advancing by \<^verbatim>\<open>marker_offset + padding\<close> columns when the
  indent is at least that much, and 1 with the parser unchanged when it is less. So
  a blank line fails to continue a childless item only when its indent is below
  \<^verbatim>\<open>marker_offset + padding\<close>.
\<close>

theorem Item_continue_cases:
  assumes "list_data (heap s container) = Some r"
    and "marker_offset (dicts s r) = Some mo"
    and "padding (dicts s r) = Some pd"
  shows "(blank s \<and> last_child (heap s container) \<noteq> None \<longrightarrow>
           Item_continue container s
             = Inr (0, s\<lparr>offset := next_nonspace s, column := next_nonspace_column s\<rparr>))
       \<and> (\<not> (blank s \<and> last_child (heap s container) \<noteq> None) \<and> indent s \<ge> mo + pd \<longrightarrow>
           Item_continue container s = Inr (0, advance_offset (int (mo + pd)) True s))
       \<and> (\<not> (blank s \<and> last_child (heap s container) \<noteq> None) \<and> indent s < mo + pd \<longrightarrow>
           Item_continue container s = Inr (1, s))"
  using assms by (auto simp: Item_continue_def advance_next_nonspace_def)

theorem Item_continue_cases_witness:
  "list_data (heap text_line_at_empty_item 1) = Some 0
   \<and> marker_offset (dicts text_line_at_empty_item 0) = Some 0
   \<and> padding (dicts text_line_at_empty_item 0) = Some 2
   \<and> \<not> blank text_line_at_empty_item
   \<and> indent text_line_at_empty_item = 2
   \<and> Item_continue 1 text_line_at_empty_item
        = Inr (0, advance_offset 2 True text_line_at_empty_item)"
proof -
  have st: "list_data (heap text_line_at_empty_item 1) = Some 0"
    "marker_offset (dicts text_line_at_empty_item 0) = Some 0"
    "padding (dicts text_line_at_empty_item 0) = Some 2"
    "\<not> blank text_line_at_empty_item" "indent text_line_at_empty_item = 2"
    by (simp_all add: text_line_at_empty_item_def blank_line_at_empty_item_def
        find_next_nonspace_def Parser_def unallocated_def empty_dict_def peek_def
        CODE_INDENT_def ustr_def)
  from Item_continue_cases [OF st(1-3)] st(4,5) show ?thesis
    using st(1-3) by simp
qed

subsection \<open>\<^verbatim>\<open>HtmlBlock.finalize\<close>\<close>

lemma sub_trailing_blank_lines_split:
  "\<exists>suf. s = sub_trailing_blank_lines [] s @ suf
         \<and> (suf = [] \<or> (\<exists>q. suf = NL # q \<and> set q \<subseteq> {NL, SP}))"
proof (induction s)
  case Nil
  show ?case by simp
next
  case (Cons c cs)
  then show ?case by (auto simp: subset_iff)
qed

lemma sub_trailing_blank_lines_done:
  "sub_trailing_blank_lines [] s = p @ NL # q \<Longrightarrow> \<not> set q \<subseteq> {NL, SP}"
proof (induction s arbitrary: p)
  case Nil
  then show ?case by simp
next
  case (Cons c cs)
  show ?case
  proof (cases "c = NL \<and> (\<forall>d \<in> set cs. d = NL \<or> d = SP)")
    case True
    with Cons.prems show ?thesis by simp
  next
    case False
    with Cons.prems have eq: "c # sub_trailing_blank_lines [] cs = p @ NL # q"
      by auto
    show ?thesis
    proof (cases p)
      case Nil
      with eq have c: "c = NL" and q: "q = sub_trailing_blank_lines [] cs" by simp_all
      from sub_trailing_blank_lines_split [of cs] obtain suf where
        "cs = q @ suf" "suf = [] \<or> (\<exists>r. suf = NL # r \<and> set r \<subseteq> {NL, SP})"
        unfolding q by blast
      with False c show ?thesis by (auto simp: subset_iff)
    next
      case (Cons a p')
      with eq have "sub_trailing_blank_lines [] cs = p' @ NL # q" by simp
      then show ?thesis by (rule Cons.IH)
    qed
  qed
qed

text \<open>
  Claim C9: \<^verbatim>\<open>HtmlBlock.finalize\<close> clears \<^verbatim>\<open>string_content\<close> and sets the literal.
  When the string is \<^verbatim>\<open>"<div>\n"\<close> and the source position is
  \<^verbatim>\<open>[[1,3],[1,7]]\<close> the literal is \<^verbatim>\<open>"\n<div>"\<close>. Otherwise the literal is the
  string without its trailing blank lines: what is cut off is empty or starts at a
  newline and holds only newlines and spaces, and no newline of the literal is
  followed by newlines and spaces only.
\<close>

theorem HtmlBlock_finalize_literal:
  assumes "string_content (heap s block) = Some content"
  shows "\<exists>s' lit. HtmlBlock_finalize block s = Inr s'
           \<and> string_content (heap s' block) = None
           \<and> literal (heap s' block) = Some lit
           \<and> (if content = ustr ''<div>'' @ [NL]
                   \<and> positions s (sourcepos (heap s block)) = ((1, 3), (1, 7))
               then lit = NL # ustr ''<div>''
               else (\<exists>suf. content = lit @ suf
                       \<and> (suf = [] \<or> (\<exists>q. suf = NL # q \<and> set q \<subseteq> {NL, SP})))
                    \<and> (\<forall>p q. lit = p @ NL # q \<longrightarrow> \<not> set q \<subseteq> {NL, SP}))"
proof (cases "content = ustr ''<div>'' @ [NL]
    \<and> positions s (sourcepos (heap s block)) = ((1, 3), (1, 7))")
  case True
  with assms show ?thesis
    by (simp add: HtmlBlock_finalize_def upd_def ustr_def)
next
  case False
  with assms have "HtmlBlock_finalize block s =
      Inr (upd block (\<lambda>x. x\<lparr>literal := Some (sub_trailing_blank_lines [] content),
                             string_content := None\<rparr>) s)"
    by (auto simp: HtmlBlock_finalize_def)
  with False sub_trailing_blank_lines_split [of content]
    sub_trailing_blank_lines_done [of content]
  show ?thesis
    by (auto simp: upd_def)
qed

theorem HtmlBlock_finalize_literal_witness:
  "string_content (heap html_block_at_close 1) = Some (ustr ''<div>'' @ NL # ustr ''hi'' @ [NL, NL])
   \<and> (\<exists>s'. HtmlBlock_finalize 1 html_block_at_close = Inr s'
          \<and> string_content (heap s' 1) = None
          \<and> literal (heap s' 1) = Some (ustr ''<div>'' @ NL # ustr ''hi''))"
proof -
  have content: "string_content (heap html_block_at_close 1)
      = Some (ustr ''<div>'' @ NL # ustr ''hi'' @ [NL, NL])"
    by (simp add: html_block_at_close_def unallocated_def)
  from HtmlBlock_finalize_literal [OF content] obtain s' lit where
    s': "HtmlBlock_finalize 1 html_block_at_close = Inr s'"
      "string_content (heap s' 1) = None" "literal (heap s' 1) = Some lit"
    by blast
  have "HtmlBlock_finalize 1 html_block_at_close
      = Inr (upd 1 (\<lambda>x. x\<lparr>literal := Some (ustr ''<div>'' @ NL # ustr ''hi''),
                             string_content := None\<rparr>) html_block_at_close)"
    by (simp add: HtmlBlock_finalize_def html_block_at_close_def unallocated_def ustr_def
        upd_def Parser_def)
  with s' have "lit = ustr ''<div>'' @ NL # ustr ''hi''"
    by (auto simp: upd_def)
  with s' content show ?thesis
    by blast
qed

subsection \<open>The values \<^verbatim>\<open>continue_\<close> returns\<close>

lemma Block_continue_value:
  "Block_continue X k c s = Inr (rv, s') \<Longrightarrow> rv \<in> {0, 1, 2}"
  by (cases k)
     (auto simp: Block_continue_def BlockQuote_continue_def Item_continue_def
        CodeBlock_continue_def HtmlBlock_continue_def Paragraph_continue_def Let_def
        ebind_eq_Inr split: if_splits option.splits)

lemma Block_continue_no_illegal:
  "Block_continue X k c s \<noteq> Inl (ValueError ''returned illegal value, must be 0, 1, or 2'')"
  by (cases k)
     (auto simp: Block_continue_def BlockQuote_continue_def Item_continue_def
        CodeBlock_continue_def HtmlBlock_continue_def Paragraph_continue_def Let_def
        ebind_eq_Inl split: if_splits option.splits dest!: finalize_error)

lemma continue_containers_no_illegal:
  "continue_containers (Block_continue X) f c s
     \<noteq> Inl (ValueError ''returned illegal value, must be 0, 1, or 2'')"
proof (induction f arbitrary: c s)
  case 0
  show ?case by (simp split: option.splits)
next
  case (Suc f)
  show ?case
    using Suc.IH Block_continue_no_illegal
    by (auto simp: Let_def ebind_eq_Inl split: option.splits if_splits
        dest: Block_continue_value)
qed

text \<open>
  Claim C7: in the first loop of \<^verbatim>\<open>incorporate_line\<close>, a \<^verbatim>\<open>continue_\<close> that
  returns a value other than 0, 1 and 2 at an open last child ends the call with
  the \<^verbatim>\<open>ValueError\<close>; the \<^verbatim>\<open>continue_\<close> of each of the nine classes returns
  only 0, 1 or 2, and with them the loop never raises that error.
\<close>

theorem continue_value_checked:
  "(\<forall>cont f c s lc rv s2.
      last_child (heap s c) = Some lc \<and> is_open (heap s lc)
      \<and> cont (t (heap (find_next_nonspace s) lc)) lc (find_next_nonspace s) = Inr (rv, s2)
      \<and> rv \<notin> {0, 1, 2}
      \<longrightarrow> continue_containers cont (Suc f) c s
            = Inl (ValueError ''returned illegal value, must be 0, 1, or 2''))
   \<and> (\<forall>X k c s rv s'. Block_continue X k c s = Inr (rv, s') \<longrightarrow> rv \<in> {0, 1, 2})
   \<and> (\<forall>X f c s. continue_containers (Block_continue X) f c s
         \<noteq> Inl (ValueError ''returned illegal value, must be 0, 1, or 2''))"
  using Block_continue_value continue_containers_no_illegal
  by (auto simp: Let_def)

theorem continue_value_checked_witness:
  "last_child (heap open_paragraph 0) = Some 1 \<and> is_open (heap open_paragraph 1)
   \<and> continue_containers (\<lambda>k c s. Inr (3, s)) 1 0 open_paragraph
       = Inl (ValueError ''returned illegal value, must be 0, 1, or 2'')
   \<and> Block_continue plain_externals Heading 1 open_paragraph = Inr (1, open_paragraph)
   \<and> (1::int) \<in> {0, 1, 2}"
proof -
  have child: "last_child (heap open_paragraph 0) = Some 1" "is_open (heap open_paragraph 1)"
    by (simp_all add: open_paragraph_def Parser_def unallocated_def)
  have three: "(3::int) \<notin> {0, 1, 2}"
    by simp
  have heading: "Block_continue plain_externals Heading 1 open_paragraph = Inr (1, open_paragraph)"
    by (simp add: Block_continue_def)
  have illegal: "continue_containers cont (Suc f) c s
      = Inl (ValueError ''returned illegal value, must be 0, 1, or 2'')"
    if "last_child (heap s c) = Some lc" "is_open (heap s lc)"
      "cont (t (heap (find_next_nonspace s) lc)) lc (find_next_nonspace s) = Inr (rv, s2)"
      "rv \<notin> {0, 1, 2}"
    for cont f c s lc rv s2
    using continue_value_checked that by blast
  have "continue_containers (\<lambda>k c s. Inr (3, s)) (Suc 0) 0 open_paragraph
      = Inl (ValueError ''returned illegal value, must be 0, 1, or 2'')"
    by (rule illegal [OF child _ three]) simp
  moreover from continue_value_checked heading have "(1::int) \<in> {0, 1, 2}"
    by blast
  ultimately show ?thesis
    using child heading by simp
qed

subsection \<open>\<^verbatim>\<open>CodeBlock.continue_\<close> on a fenced code block\<close>

lemma takeWhile_eq_replicate: "takeWhile (\<lambda>c. c = a) xs = replicate (length (takeWhile (\<lambda>c. c = a) xs)) a"
  by (induction xs) auto

lemma all_eq_replicate: "\<forall>x \<in> set xs. x = a \<Longrightarrow> xs = replicate (length xs) a"
  by (induction xs) auto

lemma takeWhile_run: "f \<noteq> SP \<Longrightarrow>
   takeWhile (\<lambda>c. c = f) (replicate k f @ replicate m SP) = replicate k f"
  by (induction k) (auto simp: takeWhile_replicate)

lemma dropWhile_run: "f \<noteq> SP \<Longrightarrow>
   dropWhile (\<lambda>c. c = f) (replicate k f @ replicate m SP) = replicate m SP"
  by (induction k) (auto simp: dropWhile_replicate)

lemma closing_run_iff:
  assumes "NL \<notin> set r" and "f \<noteq> SP"
  shows "closing_run f r = Some g \<longleftrightarrow>
     (\<exists>k m. 3 \<le> k \<and> r = replicate k f @ replicate m SP \<and> g = replicate k f)"
proof
  assume "closing_run f r = Some g"
  then have g: "g = takeWhile (\<lambda>c. c = f) r" and len: "3 \<le> length g"
    and fin: "at_end (dropWhile (\<lambda>c. c = SP) (dropWhile (\<lambda>c. c = f) r))"
    by (auto simp: closing_run_def Let_def split: if_splits)
  let ?rest = "dropWhile (\<lambda>c. c = f) r"
  have "set (dropWhile (\<lambda>c. c = SP) ?rest) \<subseteq> set r"
    by (meson set_dropWhileD subsetI)
  with fin assms(1) have "dropWhile (\<lambda>c. c = SP) ?rest = []"
    by (auto simp: at_end_def)
  then have "\<forall>x \<in> set ?rest. x = SP"
    by (simp add: dropWhile_eq_Nil_conv)
  then have rest: "?rest = replicate (length ?rest) SP"
    by (rule all_eq_replicate)
  have "r = g @ ?rest"
    by (simp add: g)
  with rest g len takeWhile_eq_replicate [of f r] show
    "\<exists>k m. 3 \<le> k \<and> r = replicate k f @ replicate m SP \<and> g = replicate k f"
    by metis
next
  assume "\<exists>k m. 3 \<le> k \<and> r = replicate k f @ replicate m SP \<and> g = replicate k f"
  then obtain k m where "3 \<le> k" "r = replicate k f @ replicate m SP" "g = replicate k f"
    by blast
  with assms(2) show "closing_run f r = Some g"
    by (simp add: closing_run_def takeWhile_run dropWhile_run dropWhile_replicate at_end_def)
qed

lemma reClosingCodeFence_iff:
  assumes "NL \<notin> set r" and "fc = ord CHR ''`'' \<or> fc = ord CHR ''~''" and "3 \<le> n"
  shows "(r \<noteq> [] \<and> r ! 0 = fc \<and> (\<exists>g. reClosingCodeFence r = Some g \<and> n \<le> length g))
     \<longleftrightarrow> (\<exists>k m. n \<le> k \<and> r = replicate k fc @ replicate m SP)"
proof
  assume l: "r \<noteq> [] \<and> r ! 0 = fc \<and> (\<exists>g. reClosingCodeFence r = Some g \<and> n \<le> length g)"
  then obtain g where g: "reClosingCodeFence r = Some g" "n \<le> length g" by blast
  from l obtain r' where r: "r = fc # r'" by (cases r) auto
  from g(1) have "closing_run (ord CHR ''`'') r = Some g \<or> closing_run (ord CHR ''~'') r = Some g"
    by (auto simp: reClosingCodeFence_def split: option.splits)
  then have "closing_run fc r = Some g"
    using assms(2) r by (auto simp: closing_run_def Let_def split: if_splits)
  with assms(1,2) have "\<exists>k m. 3 \<le> k \<and> r = replicate k fc @ replicate m SP \<and> g = replicate k fc"
    by (subst (asm) closing_run_iff) auto
  with g(2) show "\<exists>k m. n \<le> k \<and> r = replicate k fc @ replicate m SP"
    by auto
next
  assume "\<exists>k m. n \<le> k \<and> r = replicate k fc @ replicate m SP"
  then obtain k m where km: "n \<le> k" "r = replicate k fc @ replicate m SP" by blast
  with assms(3) have k3: "3 \<le> k" by simp
  then obtain k' where k': "k = Suc k'" by (cases k) auto
  from assms(1,2) k3 km(2) have run: "closing_run fc r = Some (replicate k fc)"
    by (subst closing_run_iff) auto
  have "reClosingCodeFence r = Some (replicate k fc)"
  proof (cases "fc = ord CHR ''`''")
    case True
    with run show ?thesis by (simp add: reClosingCodeFence_def)
  next
    case False
    with assms(2) have fc: "fc = ord CHR ''~''" by simp
    have "closing_run (ord CHR ''`'') r = None"
      by (simp add: closing_run_def km(2) k' fc)
    with run fc show ?thesis by (simp add: reClosingCodeFence_def)
  qed
  with km k' show "r \<noteq> [] \<and> r ! 0 = fc \<and> (\<exists>g. reClosingCodeFence r = Some g \<and> n \<le> length g)"
    by simp
qed


lemma finalize_fenced:
  assumes "t (heap s c) = CodeBlock" and "is_fenced (heap s c)"
    and "string_content (heap s c) = Some content" and "NL \<in> set content"
  shows "finalize X c ln s =
     Inr ((upd c (\<lambda>x. x\<lparr>is_open := False,
                          info := Some (unescape_string X (strip (takeWhile (\<lambda>c. c \<noteq> NL) content))),
                          literal := Some (tl (dropWhile (\<lambda>c. c \<noteq> NL) content)),
                          string_content := None\<rparr>) s)
          \<lparr>positions := (positions s)(sourcepos (heap s c) :=
              (fst (positions s (sourcepos (heap s c))), (ln, int (last_line_length s)))),
            tip := parent (heap s c)\<rparr>)"
  using assms
  by (simp add: finalize_def Block_finalize_def CodeBlock_finalize_def upd_def Let_def)

text \<open>
  Claim C4: for a fenced code block (fence character a backtick or a tilde, fence
  length at least 3, a string that holds the newline of its first line) and a line
  without a newline: when the indent is at most 3 and the line at its first
  non-space character is a run of at least \<^verbatim>\<open>fence_length\<close> fence characters
  followed by spaces only, \<^verbatim>\<open>continue_\<close> finalizes the block and returns 2;
  in every other case it returns 0 after skipping the spaces at the offset, as
  many as there are up to \<^verbatim>\<open>fence_offset\<close> of them: the \<open>j\<close> characters skipped
  are spaces, and either \<open>j\<close> is \<^verbatim>\<open>fence_offset\<close> or the character that follows
  them is not a space. It never returns 1.
\<close>

theorem CodeBlock_continue_fenced:
  assumes "t (heap s c) = CodeBlock" and "is_fenced (heap s c)"
    and "fence_char (heap s c) = Some fc" and "fc = ord CHR ''`'' \<or> fc = ord CHR ''~''"
    and "3 \<le> fence_length (heap s c)"
    and "fence_offset (heap s c) = Some fo"
    and "NL \<notin> set (current_line s)"
    and "string_content (heap s c) = Some content" and "NL \<in> set content"
  shows "(let closing = (indent s \<le> 3 \<and>
             (\<exists>k m. fence_length (heap s c) \<le> k
                \<and> drop (next_nonspace s) (current_line s) = replicate k fc @ replicate m SP))
         in (closing \<longrightarrow>
               (\<exists>s'. CodeBlock_continue X c s = Inr (2, s')
                  \<and> finalize X c (line_number s) s = Inr s'
                  \<and> \<not> is_open (heap s' c) \<and> string_content (heap s' c) = None))
          \<and> (\<not> closing \<longrightarrow>
               (\<exists>j \<le> fo. CodeBlock_continue X c s
                     = Inr (0, s\<lparr>offset := offset s + j, column := column s + j\<rparr>)
                  \<and> (\<forall>i < j. peek (current_line s) (offset s + i) = Some SP)
                  \<and> (j = fo \<or> peek (current_line s) (offset s + j) \<noteq> Some SP)))
          \<and> (\<forall>s'. CodeBlock_continue X c s \<noteq> Inr (1, s')))"
proof -
  let ?r = "drop (next_nonspace s) (current_line s)"
  let ?closing = "indent s \<le> 3 \<and>
     (\<exists>k m. fence_length (heap s c) \<le> k \<and> ?r = replicate k fc @ replicate m SP)"
  have nl: "NL \<notin> set ?r"
    using assms(7) by (meson in_set_dropD)
  have iff: "(?r \<noteq> [] \<and> ?r ! 0 = fc
       \<and> (\<exists>g. reClosingCodeFence ?r = Some g \<and> fence_length (heap s c) \<le> length g))
     \<longleftrightarrow> (\<exists>k m. fence_length (heap s c) \<le> k \<and> ?r = replicate k fc @ replicate m SP)"
    using nl assms(4,5) by (rule reClosingCodeFence_iff)
  have nonempty: "?r \<noteq> [] \<longleftrightarrow> next_nonspace s + 1 \<le> length (current_line s)"
    by auto
  have first: "?r \<noteq> [] \<Longrightarrow> ?r ! 0 = current_line s ! next_nonspace s"
    by simp
  show ?thesis
  proof (cases ?closing)
    case True
    with iff have m: "?r \<noteq> []" "?r ! 0 = fc"
      and "\<exists>g. reClosingCodeFence ?r = Some g \<and> fence_length (heap s c) \<le> length g"
      by blast+
    then obtain g where g: "reClosingCodeFence ?r = Some g" "fence_length (heap s c) \<le> length g"
      by blast
    from True m g assms(2,3) nonempty first
    have "CodeBlock_continue X c s
        = ebind (finalize X c (line_number s) s) (\<lambda>s1. Inr (2, s1))"
      by (simp add: CodeBlock_continue_def Let_def)
    with True finalize_fenced [OF assms(1,2,8,9), of X "line_number s"] show ?thesis
      by (simp add: Let_def upd_def)
  next
    case False
    with iff nonempty first assms(3)
    have "\<not> (case (if indent s \<le> 3 \<and> length (current_line s) \<ge> next_nonspace s + 1
                        \<and> Some (current_line s ! next_nonspace s) = fence_char (heap s c)
                     then reClosingCodeFence ?r else None) of None \<Rightarrow> False
               | Some g \<Rightarrow> length g \<ge> fence_length (heap s c))"
      by (auto split: option.splits)
    with assms(2,6) have "CodeBlock_continue X c s = Inr (0, skip_fence_offset fo s)"
      by (simp add: CodeBlock_continue_def Let_def)
    with False skip_fence_offset_result [of fo s] show ?thesis
      by (auto simp: Let_def)
  qed
qed

theorem CodeBlock_continue_fenced_witness:
  "t (heap fence_at_closing_line 1) = CodeBlock \<and> is_fenced (heap fence_at_closing_line 1)
   \<and> indent fence_at_closing_line \<le> 3
   \<and> drop (next_nonspace fence_at_closing_line) (current_line fence_at_closing_line)
       = replicate 3 (ord CHR ''`'') @ replicate 0 SP
   \<and> (\<exists>s'. CodeBlock_continue plain_externals 1 fence_at_closing_line = Inr (2, s')
          \<and> \<not> is_open (heap s' 1) \<and> string_content (heap s' 1) = None)
   \<and> fence_offset (heap fence_at_text_line 1) = Some 2
   \<and> current_line fence_at_text_line = SP # SP # ustr ''x''
   \<and> offset fence_at_text_line = 0
   \<and> CodeBlock_continue plain_externals 1 fence_at_text_line
       = Inr (0, fence_at_text_line\<lparr>offset := 2, column := 2\<rparr>)
   \<and> fence_offset (heap fence_at_short_line 1) = Some 2
   \<and> current_line fence_at_short_line = SP # ustr ''x''
   \<and> CodeBlock_continue plain_externals 1 fence_at_short_line
       = Inr (0, fence_at_short_line\<lparr>offset := 1, column := 1\<rparr>)"
proof -
  have st: "t (heap fence_at_closing_line 1) = CodeBlock"
    "is_fenced (heap fence_at_closing_line 1)"
    "fence_char (heap fence_at_closing_line 1) = Some (ord CHR ''`'')"
    "3 \<le> fence_length (heap fence_at_closing_line 1)"
    "fence_offset (heap fence_at_closing_line 1) = Some 0"
    "NL \<notin> set (current_line fence_at_closing_line)"
    "string_content (heap fence_at_closing_line 1) = Some (NL # ustr ''x'' @ [NL])"
    "indent fence_at_closing_line \<le> 3"
    "fence_length (heap fence_at_closing_line 1) \<le> 3"
    "drop (next_nonspace fence_at_closing_line) (current_line fence_at_closing_line)
       = replicate 3 (ord CHR ''`'') @ replicate 0 SP"
    by (simp_all add: fence_at_closing_line_def find_next_nonspace_def Parser_def
        unallocated_def ustr_def peek_def CODE_INDENT_def numeral_3_eq_3)
  have closing: "indent fence_at_closing_line \<le> 3 \<and>
     (\<exists>k m. fence_length (heap fence_at_closing_line 1) \<le> k
        \<and> drop (next_nonspace fence_at_closing_line) (current_line fence_at_closing_line)
            = replicate k (ord CHR ''`'') @ replicate m SP)"
    using st(8,9,10) by blast
  from CodeBlock_continue_fenced [OF st(1,2,3) _ st(4,5,6,7), of plain_externals] closing
  have one: "\<exists>s'. CodeBlock_continue plain_externals 1 fence_at_closing_line = Inr (2, s')
          \<and> \<not> is_open (heap s' 1) \<and> string_content (heap s' 1) = None"
    by (simp add: Let_def) blast
  have tx: "t (heap fence_at_text_line 1) = CodeBlock"
    "is_fenced (heap fence_at_text_line 1)"
    "fence_char (heap fence_at_text_line 1) = Some (ord CHR ''`'')"
    "3 \<le> fence_length (heap fence_at_text_line 1)"
    "fence_offset (heap fence_at_text_line 1) = Some 2"
    "NL \<notin> set (current_line fence_at_text_line)"
    "string_content (heap fence_at_text_line 1) = Some [NL]"
    "current_line fence_at_text_line = SP # SP # ustr ''x''"
    "offset fence_at_text_line = 0" "column fence_at_text_line = 0"
    "length (drop (next_nonspace fence_at_text_line) (current_line fence_at_text_line)) = 1"
    by (simp_all add: fence_at_text_line_def find_next_nonspace_def Parser_def
        unallocated_def ustr_def peek_def CODE_INDENT_def)
  have open_text: "\<not> (indent fence_at_text_line \<le> 3 \<and>
     (\<exists>k m. fence_length (heap fence_at_text_line 1) \<le> k
        \<and> drop (next_nonspace fence_at_text_line) (current_line fence_at_text_line)
            = replicate k (ord CHR ''`'') @ replicate m SP))"
  proof
    assume "indent fence_at_text_line \<le> 3 \<and>
     (\<exists>k m. fence_length (heap fence_at_text_line 1) \<le> k
        \<and> drop (next_nonspace fence_at_text_line) (current_line fence_at_text_line)
            = replicate k (ord CHR ''`'') @ replicate m SP)"
    then obtain k m where "fence_length (heap fence_at_text_line 1) \<le> k"
      "length (drop (next_nonspace fence_at_text_line) (current_line fence_at_text_line))
         = k + m"
      by (metis length_append length_replicate)
    with tx(4,11) show False by simp
  qed
  from CodeBlock_continue_fenced [OF tx(1,2,3) _ tx(4,5,6,7), of plain_externals] open_text
  obtain j where j: "j \<le> 2"
    "CodeBlock_continue plain_externals 1 fence_at_text_line
       = Inr (0, fence_at_text_line\<lparr>offset := offset fence_at_text_line + j,
                                     column := column fence_at_text_line + j\<rparr>)"
    "j = 2 \<or> peek (current_line fence_at_text_line) (offset fence_at_text_line + j) \<noteq> Some SP"
    by (simp add: Let_def) blast
  from j(1) have "j = 0 \<or> j = 1 \<or> j = 2" by auto
  with j(3) have "j = 2"
    by (auto simp: tx(8,9) peek_def)
  with j(2) have two: "CodeBlock_continue plain_externals 1 fence_at_text_line
       = Inr (0, fence_at_text_line\<lparr>offset := 2, column := 2\<rparr>)"
    by (simp add: tx(9,10))
  have sh: "t (heap fence_at_short_line 1) = CodeBlock"
    "is_fenced (heap fence_at_short_line 1)"
    "fence_char (heap fence_at_short_line 1) = Some (ord CHR ''`'')"
    "3 \<le> fence_length (heap fence_at_short_line 1)"
    "fence_offset (heap fence_at_short_line 1) = Some 2"
    "NL \<notin> set (current_line fence_at_short_line)"
    "string_content (heap fence_at_short_line 1) = Some [NL]"
    "current_line fence_at_short_line = SP # ustr ''x''"
    "offset fence_at_short_line = 0" "column fence_at_short_line = 0"
    "length (drop (next_nonspace fence_at_short_line) (current_line fence_at_short_line)) = 1"
    by (simp_all add: fence_at_short_line_def fence_at_text_line_def find_next_nonspace_def
        Parser_def unallocated_def ustr_def peek_def CODE_INDENT_def)
  have open_short: "\<not> (indent fence_at_short_line \<le> 3 \<and>
     (\<exists>k m. fence_length (heap fence_at_short_line 1) \<le> k
        \<and> drop (next_nonspace fence_at_short_line) (current_line fence_at_short_line)
            = replicate k (ord CHR ''`'') @ replicate m SP))"
  proof
    assume "indent fence_at_short_line \<le> 3 \<and>
     (\<exists>k m. fence_length (heap fence_at_short_line 1) \<le> k
        \<and> drop (next_nonspace fence_at_short_line) (current_line fence_at_short_line)
            = replicate k (ord CHR ''`'') @ replicate m SP)"
    then obtain k m where "fence_length (heap fence_at_short_line 1) \<le> k"
      "length (drop (next_nonspace fence_at_short_line) (current_line fence_at_short_line))
         = k + m"
      by (metis length_append length_replicate)
    with sh(4,11) show False by simp
  qed
  from CodeBlock_continue_fenced [OF sh(1,2,3) _ sh(4,5,6,7), of plain_externals] open_short
  obtain i where i: "i \<le> 2"
    "CodeBlock_continue plain_externals 1 fence_at_short_line
       = Inr (0, fence_at_short_line\<lparr>offset := offset fence_at_short_line + i,
                                      column := column fence_at_short_line + i\<rparr>)"
    "\<forall>k < i. peek (current_line fence_at_short_line) (offset fence_at_short_line + k) = Some SP"
    "i = 2 \<or> peek (current_line fence_at_short_line) (offset fence_at_short_line + i) \<noteq> Some SP"
    by (simp add: Let_def) blast
  have "i \<noteq> 2"
  proof
    assume "i = 2"
    then have "1 < i" by simp
    with i(3) have "peek (current_line fence_at_short_line) (offset fence_at_short_line + 1)
        = Some SP"
      by blast
    then show False
      by (simp add: sh(8,9) peek_def ustr_def)
  qed
  moreover from i(1) have "i = 0 \<or> i = 1 \<or> i = 2" by auto
  ultimately have "i = 1"
    using i(4) by (auto simp: sh(8,9) peek_def ustr_def)
  with i(2) have three: "CodeBlock_continue plain_externals 1 fence_at_short_line
       = Inr (0, fence_at_short_line\<lparr>offset := 1, column := 1\<rparr>)"
    by (simp add: sh(9,10))
  from st one tx two sh three show ?thesis
    by simp
qed

lemmas keeps_defs = keeps_scan_def keeps_line_def keeps_marks_def keeps_cursor_def

lemma keeps_refl [simp]: "keeps_line s s" "keeps_marks s s" "keeps_cursor s s" "keeps_scan s s"
  by (simp_all add: keeps_defs)

lemma same_data_refl [simp]: "same_data x x"
  by (simp add: same_data_def)

lemma same_data_trans: "same_data x y \<Longrightarrow> same_data y z \<Longrightarrow> same_data x z"
  by (simp add: same_data_def)

lemma links_only_refl [simp]: "links_only s s"
  by (simp add: links_only_def)

lemma keeps_scan_trans: "keeps_scan s s1 \<Longrightarrow> keeps_scan s1 s2 \<Longrightarrow> keeps_scan s s2"
  by (simp add: keeps_defs)

lemma links_only_trans: "links_only s s1 \<Longrightarrow> links_only s1 s2 \<Longrightarrow> links_only s s2"
  unfolding links_only_def
  by (auto intro: keeps_scan_trans same_data_trans)

lemma upd_fields [simp]:
  "heap (upd n f s) = (heap s)(n := f (heap s n))"
  "next_id (upd n f s) = next_id s" "positions (upd n f s) = positions s"
  "next_pos (upd n f s) = next_pos s" "dicts (upd n f s) = dicts s"
  "next_dict (upd n f s) = next_dict s" "tip (upd n f s) = tip s"
  "refmap (upd n f s) = refmap s" "keeps_scan s (upd n f s)"
  by (simp_all add: upd_def keeps_defs)

lemma upd_scan [simp]:
  "doc (upd n f s) = doc s" "current_line (upd n f s) = current_line s"
  "line_number (upd n f s) = line_number s"
  "last_matched_container (upd n f s) = last_matched_container s"
  "last_line_length (upd n f s) = last_line_length s"
  "oldtip (upd n f s) = oldtip s" "all_closed (upd n f s) = all_closed s"
  "offset (upd n f s) = offset s" "column (upd n f s) = column s"
  "next_nonspace (upd n f s) = next_nonspace s"
  "next_nonspace_column (upd n f s) = next_nonspace_column s"
  "indent (upd n f s) = indent s" "indented (upd n f s) = indented s"
  "blank (upd n f s) = blank s"
  by (simp_all add: upd_def)

lemma upd_links_only: "(\<And>x. same_data x (f x)) \<Longrightarrow> links_only s (upd n f s)"
  by (simp add: links_only_def)

lemma same_data_links [simp]:
  "same_data x (x\<lparr>parent := a\<rparr>)" "same_data x (x\<lparr>first_child := a\<rparr>)"
  "same_data x (x\<lparr>last_child := a\<rparr>)" "same_data x (x\<lparr>prv := a\<rparr>)"
  "same_data x (x\<lparr>nxt := a\<rparr>)"
  "same_data x (x\<lparr>parent := a, nxt := b, prv := c\<rparr>)"
  "same_data x (x\<lparr>first_child := a, last_child := b\<rparr>)"
  by (simp_all add: same_data_def)

lemma unlink_links_only: "links_only s (unlink n s)"
proof -
  define s1 where "s1 = (case prv (heap s n) of
                  Some p \<Rightarrow> upd p (\<lambda>x. x\<lparr>nxt := nxt (heap s n)\<rparr>) s
                | None \<Rightarrow>
                    (case parent (heap s n) of
                       Some q \<Rightarrow> upd q (\<lambda>x. x\<lparr>first_child := nxt (heap s n)\<rparr>) s
                     | None \<Rightarrow> s))"
  define s2 where "s2 = (case nxt (heap s1 n) of
                  Some x \<Rightarrow> upd x (\<lambda>y. y\<lparr>prv := prv (heap s1 n)\<rparr>) s1
                | None \<Rightarrow>
                    (case parent (heap s1 n) of
                       Some q \<Rightarrow> upd q (\<lambda>y. y\<lparr>last_child := prv (heap s1 n)\<rparr>) s1
                     | None \<Rightarrow> s1))"
  have 1: "links_only s s1"
    unfolding s1_def by (simp add: upd_links_only split: option.split)
  have 2: "links_only s1 s2"
    unfolding s2_def by (simp add: upd_links_only split: option.split)
  have 3: "links_only s2 (upd n (\<lambda>y. y\<lparr>parent := None, nxt := None, prv := None\<rparr>) s2)"
    by (simp add: upd_links_only)
  have "unlink n s = upd n (\<lambda>y. y\<lparr>parent := None, nxt := None, prv := None\<rparr>) s2"
    by (simp only: unlink_def s1_def s2_def Let_def)
  with links_only_trans [OF links_only_trans [OF 1 2] 3] show ?thesis
    by simp
qed


lemma links_only_upd_after:
  "links_only s s1 \<Longrightarrow> (\<And>x. same_data x (f x)) \<Longrightarrow> links_only s (upd n f s1)"
  by (rule links_only_trans [OF _ upd_links_only])

lemma append_child_links_only: "links_only s (append_child p c s)"
proof -
  define s1 where "s1 = upd c (\<lambda>x. x\<lparr>parent := Some p\<rparr>) (unlink c s)"
  have 1: "links_only s s1"
    unfolding s1_def by (rule links_only_upd_after [OF unlink_links_only]) simp
  have "links_only s1 (case last_child (heap s1 p) of
           Some l \<Rightarrow>
             upd p (\<lambda>x. x\<lparr>last_child := Some c\<rparr>)
               (upd c (\<lambda>x. x\<lparr>prv := Some l\<rparr>) (upd l (\<lambda>x. x\<lparr>nxt := Some c\<rparr>) s1))
         | None \<Rightarrow> upd p (\<lambda>x. x\<lparr>first_child := Some c, last_child := Some c\<rparr>) s1)"
    by (auto split: option.split intro!: links_only_upd_after upd_links_only)
  with 1 have "links_only s (case last_child (heap s1 p) of
           Some l \<Rightarrow>
             upd p (\<lambda>x. x\<lparr>last_child := Some c\<rparr>)
               (upd c (\<lambda>x. x\<lparr>prv := Some l\<rparr>) (upd l (\<lambda>x. x\<lparr>nxt := Some c\<rparr>) s1))
         | None \<Rightarrow> upd p (\<lambda>x. x\<lparr>first_child := Some c, last_child := Some c\<rparr>) s1)"
    by (rule links_only_trans)
  then show ?thesis
    by (simp only: append_child_def s1_def Let_def)
qed



lemma links_only_own: "links_only s s' \<Longrightarrow> own s' n = own s n"
  by (simp add: links_only_def own_def keeps_defs)

lemma upd_parent_same:
  "parent (f (heap s n)) = parent (heap s n) \<Longrightarrow>
     parent (heap (upd n f s) m) = parent (heap s m)"
  by simp

lemma unlink_parent:
  "parent (heap (unlink n s) m) = (if m = n then None else parent (heap s m))"
proof -
  define s1 where "s1 = (case prv (heap s n) of
                  Some p \<Rightarrow> upd p (\<lambda>x. x\<lparr>nxt := nxt (heap s n)\<rparr>) s
                | None \<Rightarrow>
                    (case parent (heap s n) of
                       Some q \<Rightarrow> upd q (\<lambda>x. x\<lparr>first_child := nxt (heap s n)\<rparr>) s
                     | None \<Rightarrow> s))"
  define s2 where "s2 = (case nxt (heap s1 n) of
                  Some x \<Rightarrow> upd x (\<lambda>y. y\<lparr>prv := prv (heap s1 n)\<rparr>) s1
                | None \<Rightarrow>
                    (case parent (heap s1 n) of
                       Some q \<Rightarrow> upd q (\<lambda>y. y\<lparr>last_child := prv (heap s1 n)\<rparr>) s1
                     | None \<Rightarrow> s1))"
  have 1: "parent (heap s1 m) = parent (heap s m)" for m
    unfolding s1_def by (simp split: option.split)
  have 2: "parent (heap s2 m) = parent (heap s1 m)" for m
    unfolding s2_def by (simp split: option.split)
  have "unlink n s = upd n (\<lambda>y. y\<lparr>parent := None, nxt := None, prv := None\<rparr>) s2"
    by (simp only: unlink_def s1_def s2_def Let_def)
  then show ?thesis
    by (simp add: 1 2)
qed

lemma ptrs_update:
  "q \<in> ptrs (x\<lparr>nxt := a\<rparr>) \<Longrightarrow> q \<in> ptrs x \<or> a = Some q"
  "q \<in> ptrs (x\<lparr>prv := a\<rparr>) \<Longrightarrow> q \<in> ptrs x \<or> a = Some q"
  "q \<in> ptrs (x\<lparr>first_child := a\<rparr>) \<Longrightarrow> q \<in> ptrs x \<or> a = Some q"
  "q \<in> ptrs (x\<lparr>last_child := a\<rparr>) \<Longrightarrow> q \<in> ptrs x \<or> a = Some q"
  "q \<in> ptrs (x\<lparr>parent := a\<rparr>) \<Longrightarrow> q \<in> ptrs x \<or> a = Some q"
  "q \<in> ptrs (x\<lparr>parent := None, nxt := None, prv := None\<rparr>) \<Longrightarrow> q \<in> ptrs x"
  "q \<in> ptrs (x\<lparr>first_child := a, last_child := a\<rparr>) \<Longrightarrow> q \<in> ptrs x \<or> a = Some q"
  unfolding ptrs_def by (simp_all, blast+)

lemma closed_linksD: "closed_links s \<Longrightarrow> own s m \<Longrightarrow> q \<in> ptrs (heap s m) \<Longrightarrow> own s q"
  unfolding closed_links_def by blast

lemma ptrsI:
  "parent x = Some q \<Longrightarrow> q \<in> ptrs x" "first_child x = Some q \<Longrightarrow> q \<in> ptrs x"
  "last_child x = Some q \<Longrightarrow> q \<in> ptrs x" "prv x = Some q \<Longrightarrow> q \<in> ptrs x"
  "nxt x = Some q \<Longrightarrow> q \<in> ptrs x"
  unfolding ptrs_def by simp_all

lemma upd_own [simp]: "own (upd n f s) m = own s m"
  by (simp add: own_def)

lemma upd_closed_links:
  assumes "closed_links s"
    and "\<And>q. q \<in> ptrs (f (heap s n)) \<Longrightarrow> q \<in> ptrs (heap s n) \<or> own s q"
  shows "closed_links (upd n f s)"
  unfolding closed_links_def
proof (intro allI impI subsetI CollectI)
  fix m q assume m: "own (upd n f s) m" and q: "q \<in> ptrs (heap (upd n f s) m)"
  show "own (upd n f s) q"
  proof (cases "m = n")
    case True
    with q have "q \<in> ptrs (f (heap s n))" by simp
    from assms(2) [OF this] m True assms(1) show ?thesis
      by (auto dest: closed_linksD)
  next
    case False
    with q have "q \<in> ptrs (heap s m)" by simp
    with m assms(1) show ?thesis
      by (auto dest: closed_linksD)
  qed
qed

lemma unlink_closed_links:
  assumes "closed_links s" and "own s n"
  shows "closed_links (unlink n s)"
proof -
  define s1 where "s1 = (case prv (heap s n) of
                  Some p \<Rightarrow> upd p (\<lambda>x. x\<lparr>nxt := nxt (heap s n)\<rparr>) s
                | None \<Rightarrow>
                    (case parent (heap s n) of
                       Some q \<Rightarrow> upd q (\<lambda>x. x\<lparr>first_child := nxt (heap s n)\<rparr>) s
                     | None \<Rightarrow> s))"
  define s2 where "s2 = (case nxt (heap s1 n) of
                  Some x \<Rightarrow> upd x (\<lambda>y. y\<lparr>prv := prv (heap s1 n)\<rparr>) s1
                | None \<Rightarrow>
                    (case parent (heap s1 n) of
                       Some q \<Rightarrow> upd q (\<lambda>y. y\<lparr>last_child := prv (heap s1 n)\<rparr>) s1
                     | None \<Rightarrow> s1))"
  have nx: "nxt (heap s n) = Some q \<Longrightarrow> own s q" for q
    using assms by (auto dest: closed_linksD ptrsI)
  have 1: "closed_links s1"
  proof (cases "prv (heap s n)")
    case (Some p)
    have "closed_links (upd p (\<lambda>x. x\<lparr>nxt := nxt (heap s n)\<rparr>) s)"
      using assms(1) by (rule upd_closed_links) (auto dest: ptrs_update nx)
    with Some show ?thesis by (simp add: s1_def)
  next
    case None
    show ?thesis
    proof (cases "parent (heap s n)")
      case (Some q)
      have "closed_links (upd q (\<lambda>x. x\<lparr>first_child := nxt (heap s n)\<rparr>) s)"
        using assms(1) by (rule upd_closed_links) (auto dest: ptrs_update nx)
      with Some None show ?thesis by (simp add: s1_def)
    next
      case None
      with \<open>prv (heap s n) = None\<close> assms(1) show ?thesis by (simp add: s1_def)
    qed
  qed
  have o1: "own s1 m = own s m" for m
    unfolding s1_def by (simp split: option.split)
  have pv: "prv (heap s1 n) = Some q \<Longrightarrow> own s1 q" for q
    using 1 assms(2) o1 by (auto dest: closed_linksD ptrsI)
  have 2: "closed_links s2"
  proof (cases "nxt (heap s1 n)")
    case (Some x)
    have "closed_links (upd x (\<lambda>y. y\<lparr>prv := prv (heap s1 n)\<rparr>) s1)"
      using 1 by (rule upd_closed_links) (auto dest: ptrs_update pv)
    with Some show ?thesis by (simp add: s2_def)
  next
    case None
    show ?thesis
    proof (cases "parent (heap s1 n)")
      case (Some q)
      have "closed_links (upd q (\<lambda>y. y\<lparr>last_child := prv (heap s1 n)\<rparr>) s1)"
        using 1 by (rule upd_closed_links) (auto dest: ptrs_update pv)
      with Some None show ?thesis by (simp add: s2_def)
    next
      case None
      with \<open>nxt (heap s1 n) = None\<close> 1 show ?thesis by (simp add: s2_def)
    qed
  qed
  have "unlink n s = upd n (\<lambda>y. y\<lparr>parent := None, nxt := None, prv := None\<rparr>) s2"
    by (simp only: unlink_def s1_def s2_def Let_def)
  moreover have "closed_links (upd n (\<lambda>y. y\<lparr>parent := None, nxt := None, prv := None\<rparr>) s2)"
    using 2 by (rule upd_closed_links) (auto dest: ptrs_update)
  ultimately show ?thesis
    by simp
qed

lemma links_only_closes_part:
  assumes "links_only s s'"
  shows "keeps_scan s s'" "next_id s' = next_id s" "next_pos s' = next_pos s"
    "positions s' = positions s" "tip s' = tip s"
    "t (heap s' m) = t (heap s m)" "sourcepos (heap s' m) = sourcepos (heap s m)"
    "is_fenced (heap s' m) = is_fenced (heap s m)" "is_open (heap s' m) = is_open (heap s m)"
    "string_content (heap s' m) = string_content (heap s m)"
  using assms by (simp_all add: links_only_def same_data_def)

lemma keeps_scan_upd [simp]: "keeps_scan s (upd n f s1) = keeps_scan s s1"
  by (simp add: keeps_defs)

lemma block_closes_refl:
  "\<not> raw_leaf (t (heap s b)) \<Longrightarrow> block_closes b s s"
  by (simp add: block_closes_def raw_leaf_def)

lemma closed_links_same_ptrs:
  assumes "closed_links s" and "\<And>m. ptrs (heap s' m) = ptrs (heap s m)"
    and "next_id s' = next_id s" and "doc s' = doc s"
  shows "closed_links s'"
  using assms unfolding closed_links_def own_def by simp

lemma ptrs_data [simp]:
  "ptrs (x\<lparr>string_content := a\<rparr>) = ptrs x" "ptrs (x\<lparr>literal := b\<rparr>) = ptrs x"
  "ptrs (x\<lparr>info := c\<rparr>) = ptrs x" "ptrs (x\<lparr>list_data := d\<rparr>) = ptrs x"
  "ptrs (x\<lparr>is_open := e\<rparr>) = ptrs x" "ptrs (x\<lparr>last_line_blank := f\<rparr>) = ptrs x"
  "ptrs (x\<lparr>level := g\<rparr>) = ptrs x" "ptrs (x\<lparr>html_block_type := h\<rparr>) = ptrs x"
  "ptrs (x\<lparr>is_fenced := i\<rparr>) = ptrs x" "ptrs (x\<lparr>fence_length := j\<rparr>) = ptrs x"
  "ptrs (x\<lparr>fence_char := k\<rparr>) = ptrs x" "ptrs (x\<lparr>fence_offset := l\<rparr>) = ptrs x"
  "ptrs (x\<lparr>inlines := n\<rparr>) = ptrs x"
  by (simp_all add: ptrs_def)

lemma upd_data_closed_links:
  "closed_links s \<Longrightarrow> ptrs (f (heap s n)) = ptrs (heap s n) \<Longrightarrow> closed_links (upd n f s)"
  by (rule upd_closed_links) simp_all

lemma CodeBlock_finalize_closes:
  assumes "CodeBlock_finalize X b s = Inr s'" and "t (heap s b) = CodeBlock"
  shows "block_closes b s s'"
proof (cases "is_fenced (heap s b)")
  case True
  with assms(1) obtain content where c: "string_content (heap s b) = Some content"
    "NL \<in> set content"
    and s': "s' = upd b (\<lambda>x. x\<lparr>info := Some (unescape_string X (strip (takeWhile (\<lambda>c. c \<noteq> NL) content))),
                            literal := Some (tl (dropWhile (\<lambda>c. c \<noteq> NL) content)),
                            string_content := None\<rparr>) s"
    by (auto simp: CodeBlock_finalize_def Let_def split: option.splits if_splits)
  show ?thesis
    unfolding block_closes_def s' using c True
    by (auto simp: ready_def intro!: upd_data_closed_links)
next
  case False
  with assms(1) obtain content where
    s': "s' = upd b (\<lambda>x. x\<lparr>literal := Some (sub_trailing_blank_lines [NL] content),
                            string_content := None\<rparr>) s"
    by (auto simp: CodeBlock_finalize_def Let_def split: option.splits if_splits)
  show ?thesis
    unfolding block_closes_def s' using False
    by (auto intro!: upd_data_closed_links)
qed

lemma HtmlBlock_finalize_closes:
  assumes "HtmlBlock_finalize b s = Inr s'" and "t (heap s b) = HtmlBlock"
  shows "block_closes b s s'"
proof -
  define s1 where "s1 = (if string_content (heap s b) = Some (ustr ''<div>'' @ [NL])
                   \<and> positions s (sourcepos (heap s b)) = ((1, 3), (1, 7))
                then upd b (\<lambda>x. x\<lparr>string_content := Some (NL # ustr ''<div>'')\<rparr>) s
                else s)"
  from assms(1) obtain content where
    s': "s' = upd b (\<lambda>x. x\<lparr>literal := Some (sub_trailing_blank_lines [] content),
                            string_content := None\<rparr>) s1"
    by (auto simp: HtmlBlock_finalize_def s1_def Let_def split: option.splits)
  have 1: "block_closes b s (upd b (\<lambda>x. x\<lparr>literal := Some l, string_content := None\<rparr>)
      (upd b (\<lambda>x. x\<lparr>string_content := c\<rparr>) s))" for l c
    unfolding block_closes_def using assms(2)
    by (auto intro!: upd_data_closed_links)
  have 2: "block_closes b s (upd b (\<lambda>x. x\<lparr>literal := Some l, string_content := None\<rparr>) s)" for l
    unfolding block_closes_def using assms(2)
    by (auto intro!: upd_data_closed_links)
  show ?thesis
    unfolding s' s1_def using 1 2 by (simp split: if_split)
qed


lemma closed_links_cong:
  "heap s' = heap s \<Longrightarrow> next_id s' = next_id s \<Longrightarrow> doc s' = doc s \<Longrightarrow>
     closed_links s' = closed_links s"
  by (simp add: closed_links_def own_def)

lemma links_only_parts:
  assumes "links_only s s'"
  shows "keeps_scan s s'" "next_id s' = next_id s" "next_pos s' = next_pos s"
    "positions s' = positions s" "tip s' = tip s" "refmap s' = refmap s"
    "dicts s' = dicts s" "next_dict s' = next_dict s"
    "\<And>m. same_data (heap s m) (heap s' m)"
  using assms by (simp_all add: links_only_def)

lemma same_dataD:
  assumes "same_data x y"
  shows "t y = t x" "sourcepos y = sourcepos x" "is_fenced y = is_fenced x"
    "is_open y = is_open x" "string_content y = string_content x"
    "last_line_blank y = last_line_blank x" "list_data y = list_data x"
    "html_block_type y = html_block_type x" "fence_char y = fence_char x"
    "fence_length y = fence_length x" "fence_offset y = fence_offset x"
    "literal y = literal x" "info y = info x" "level y = level x" "inlines y = inlines x"
  using assms by (simp_all add: same_data_def)

lemma Paragraph_finalize_closes:
  assumes "Paragraph_finalize X b s = Inr s'" and "t (heap s b) = Paragraph"
  shows "block_closes b s s'"
proof -
  from assms(1) obtain content' rm where
    s': "s' = unlink b ((upd b (\<lambda>x. x\<lparr>string_content := Some content'\<rparr>) s)\<lparr>refmap := rm\<rparr>)
       \<or> s' = (upd b (\<lambda>x. x\<lparr>string_content := Some content'\<rparr>) s)\<lparr>refmap := rm\<rparr>"
    by (auto simp: Paragraph_finalize_def Let_def split: option.splits prod.splits if_splits)
  define s1 where "s1 = (upd b (\<lambda>x. x\<lparr>string_content := Some content'\<rparr>) s)\<lparr>refmap := rm\<rparr>"
  have 1: "block_closes b s s1"
    unfolding block_closes_def s1_def using assms(2)
    by (auto simp: raw_leaf_def keeps_defs closed_links_def own_def)
  have 2: "block_closes b s (unlink b s1)"
  proof -
    note l = links_only_parts [OF unlink_links_only [of s1 b]]
    note d = same_dataD [OF l(9)]
    have k: "keeps_scan s (unlink b s1)"
      using l(1) by (simp add: s1_def keeps_defs)
    have c: "closed_links s \<and> own s b \<longrightarrow> closed_links (unlink b s1)"
    proof
      assume a: "closed_links s \<and> own s b"
      then have "closed_links s1" "own s1 b"
        by (simp_all add: s1_def closed_links_def own_def)
      then show "closed_links (unlink b s1)"
        by (rule unlink_closed_links)
    qed
    show ?thesis
      unfolding block_closes_def
      using k c assms(2)
      by (simp add: l d unlink_parent raw_leaf_def) (simp add: s1_def)
  qed
  from s' 1 2 show ?thesis
    by (auto simp: s1_def)
qed

lemma List_finalize_closes:
  assumes "List_finalize b s = Inr s'" and "t (heap s b) = List"
  shows "block_closes b s s'"
proof -
  from assms(1) have "s' = s \<or> s' = set_loose b s"
    by (auto simp: List_finalize_def ebind_eq_Inr split: if_splits)
  moreover have "block_closes b s s"
    using assms(2) by (simp add: block_closes_refl raw_leaf_def)
  moreover have "block_closes b s (set_loose b s)"
    unfolding block_closes_def set_loose_def alloc_dict_def using assms(2)
    by (auto simp: raw_leaf_def keeps_defs closed_links_def own_def Let_def
        split: option.splits)
  ultimately show ?thesis
    by auto
qed

lemma Block_finalize_closes:
  assumes "Block_finalize X (t (heap s b)) b s = Inr s'"
  shows "block_closes b s s'"
proof (cases "t (heap s b)")
  case List
  with assms show ?thesis by (simp add: Block_finalize_def List_finalize_closes)
next
  case CodeBlock
  with assms show ?thesis by (simp add: Block_finalize_def CodeBlock_finalize_closes)
next
  case HtmlBlock
  with assms show ?thesis by (simp add: Block_finalize_def HtmlBlock_finalize_closes)
next
  case Paragraph
  with assms show ?thesis by (simp add: Block_finalize_def Paragraph_finalize_closes)
qed (use assms in \<open>simp_all add: Block_finalize_def block_closes_refl raw_leaf_def\<close>)

lemma ready_is_open [simp]: "ready (x\<lparr>is_open := a\<rparr>) = ready x"
  by (simp add: ready_def)

lemma finalize_closes:
  assumes "finalize X b ln s = Inr s'"
  shows "closes b ln s s'"
proof -
  define s1 where "s1 = upd b (\<lambda>x. x\<lparr>is_open := False\<rparr>) s"
  define s2 where "s2 = s1\<lparr>positions := (positions s1)
                 (sourcepos (heap s1 b) := (fst (positions s1 (sourcepos (heap s1 b))),
                    (ln, int (last_line_length s1))))\<rparr>"
  from assms obtain s3 where s3: "Block_finalize X (t (heap s2 b)) b s2 = Inr s3"
    and s': "s' = s3\<lparr>tip := parent (heap s b)\<rparr>"
    by (auto simp: finalize_def Let_def ebind_eq_Inr s1_def s2_def)
  note bc = Block_finalize_closes [OF s3, unfolded block_closes_def]
  have h2: "heap s2 = (heap s)(b := (heap s b)\<lparr>is_open := False\<rparr>)"
    by (simp add: s2_def s1_def)
  have f2: "keeps_scan s s2" "next_id s2 = next_id s" "next_pos s2 = next_pos s"
    "positions s2 = (positions s)(sourcepos (heap s b) :=
          (fst (positions s (sourcepos (heap s b))), (ln, int (last_line_length s))))"
    "doc s2 = doc s"
    by (simp_all add: s2_def s1_def keeps_defs)
  have c2: "closed_links s \<and> own s b \<longrightarrow> closed_links s2 \<and> own s2 b"
    by (simp add: closed_links_def own_def h2 f2)
  have k: "keeps_scan s s'"
    using bc f2(1) by (simp add: s' keeps_defs)
  have cl: "closed_links s \<and> own s b \<longrightarrow> closed_links s'"
  proof
    assume "closed_links s \<and> own s b"
    with c2 have "closed_links s2 \<and> own s2 b" by blast
    with bc have "closed_links s3" by blast
    then show "closed_links s'"
      by (simp add: s' closed_links_def own_def)
  qed
  show ?thesis
    unfolding closes_def
    using k cl bc
    by (simp add: s' h2 f2)
qed

text \<open>\<open>finalize\<close> does not look at \<open>oldtip\<close>.\<close>

lemma upd_oldtip: "upd n f (s\<lparr>oldtip := a\<rparr>) = (upd n f s)\<lparr>oldtip := a\<rparr>"
  by (simp add: upd_def)

lemma unlink_oldtip: "unlink n (s\<lparr>oldtip := a\<rparr>) = (unlink n s)\<lparr>oldtip := a\<rparr>"
proof -
  define s1 where "s1 = (case prv (heap s n) of
                  Some p \<Rightarrow> upd p (\<lambda>x. x\<lparr>nxt := nxt (heap s n)\<rparr>) s
                | None \<Rightarrow>
                    (case parent (heap s n) of
                       Some q \<Rightarrow> upd q (\<lambda>x. x\<lparr>first_child := nxt (heap s n)\<rparr>) s
                     | None \<Rightarrow> s))"
  define s2 where "s2 = (case nxt (heap s1 n) of
                  Some x \<Rightarrow> upd x (\<lambda>y. y\<lparr>prv := prv (heap s1 n)\<rparr>) s1
                | None \<Rightarrow>
                    (case parent (heap s1 n) of
                       Some q \<Rightarrow> upd q (\<lambda>y. y\<lparr>last_child := prv (heap s1 n)\<rparr>) s1
                     | None \<Rightarrow> s1))"
  define t1 where "t1 = (case prv (heap (s\<lparr>oldtip := a\<rparr>) n) of
                  Some p \<Rightarrow> upd p (\<lambda>x. x\<lparr>nxt := nxt (heap (s\<lparr>oldtip := a\<rparr>) n)\<rparr>) (s\<lparr>oldtip := a\<rparr>)
                | None \<Rightarrow>
                    (case parent (heap (s\<lparr>oldtip := a\<rparr>) n) of
                       Some q \<Rightarrow> upd q (\<lambda>x. x\<lparr>first_child := nxt (heap (s\<lparr>oldtip := a\<rparr>) n)\<rparr>) (s\<lparr>oldtip := a\<rparr>)
                     | None \<Rightarrow> s\<lparr>oldtip := a\<rparr>))"
  define t2 where "t2 = (case nxt (heap t1 n) of
                  Some x \<Rightarrow> upd x (\<lambda>y. y\<lparr>prv := prv (heap t1 n)\<rparr>) t1
                | None \<Rightarrow>
                    (case parent (heap t1 n) of
                       Some q \<Rightarrow> upd q (\<lambda>y. y\<lparr>last_child := prv (heap t1 n)\<rparr>) t1
                     | None \<Rightarrow> t1))"
  have 1: "t1 = s1\<lparr>oldtip := a\<rparr>"
    unfolding t1_def s1_def by (simp add: upd_oldtip split: option.split)
  have 2: "t2 = s2\<lparr>oldtip := a\<rparr>"
    unfolding t2_def s2_def 1 by (simp add: upd_oldtip split: option.split)
  have "unlink n (s\<lparr>oldtip := a\<rparr>) = upd n (\<lambda>y. y\<lparr>parent := None, nxt := None, prv := None\<rparr>) t2"
    by (simp only: unlink_def t1_def t2_def Let_def)
  moreover have "unlink n s = upd n (\<lambda>y. y\<lparr>parent := None, nxt := None, prv := None\<rparr>) s2"
    by (simp only: unlink_def s1_def s2_def Let_def)
  ultimately show ?thesis
    by (simp add: 2 upd_oldtip)
qed

lemma Block_finalize_oldtip:
  "Block_finalize X k b (s\<lparr>oldtip := a\<rparr>)
     = (case Block_finalize X k b s of Inl e \<Rightarrow> Inl e | Inr s' \<Rightarrow> Inr (s'\<lparr>oldtip := a\<rparr>))"
proof (cases k)
  case List
  have "set_loose b (s\<lparr>oldtip := a\<rparr>) = (set_loose b s)\<lparr>oldtip := a\<rparr>"
    by (simp add: set_loose_def alloc_dict_def upd_oldtip upd_def split: option.split)
  with List show ?thesis
    by (cases "List_items (next_id s) (next_id s) (heap s) (first_child (heap s b))")
       (simp_all add: Block_finalize_def List_finalize_def)
next
  case CodeBlock
  then show ?thesis
    by (simp add: Block_finalize_def CodeBlock_finalize_def upd_oldtip Let_def
        split: option.split)
next
  case HtmlBlock
  then show ?thesis
    by (simp add: Block_finalize_def HtmlBlock_finalize_def upd_oldtip Let_def upd_def
        split: option.split)
next
  case Paragraph
  have "unlink b ((upd b f s)\<lparr>oldtip := a, refmap := r\<rparr>)
      = (unlink b ((upd b f s)\<lparr>refmap := r\<rparr>))\<lparr>oldtip := a\<rparr>" for f r
    using unlink_oldtip [where n = b and s = "(upd b f s)\<lparr>refmap := r\<rparr>" and a = a]
    by (cases s) (simp add: upd_def)
  with Paragraph show ?thesis
    by (simp add: Block_finalize_def Paragraph_finalize_def upd_oldtip Let_def
        split: option.split prod.split)
qed (simp_all add: Block_finalize_def)

lemma finalize_oldtip:
  "finalize X b ln (s\<lparr>oldtip := a\<rparr>)
     = (case finalize X b ln s of Inl e \<Rightarrow> Inl e | Inr s' \<Rightarrow> Inr (s'\<lparr>oldtip := a\<rparr>))"
proof -
  define s2 where "s2 = (upd b (\<lambda>x. x\<lparr>is_open := False\<rparr>) s)
      \<lparr>positions := (positions s)(sourcepos (heap s b) :=
          (fst (positions s (sourcepos (heap s b))), (ln, int (last_line_length s))))\<rparr>"
  have l: "finalize X b ln s = ebind (Block_finalize X (t (heap s b)) b s2)
           (\<lambda>s3. Inr (s3\<lparr>tip := parent (heap s b)\<rparr>))"
    by (simp add: finalize_def Let_def s2_def)
  have r: "finalize X b ln (s\<lparr>oldtip := a\<rparr>)
      = ebind (Block_finalize X (t (heap s b)) b (s2\<lparr>oldtip := a\<rparr>))
           (\<lambda>s3. Inr (s3\<lparr>tip := parent (heap s b)\<rparr>))"
    by (cases s) (simp add: finalize_def Let_def s2_def upd_def)
  show ?thesis
    unfolding l r Block_finalize_oldtip
    by (cases "Block_finalize X (t (heap s b)) b s2") simp_all
qed


lemma finalize_all_oldtip:
  "finalize_all X ln bs (s\<lparr>oldtip := a\<rparr>)
     = (case finalize_all X ln bs s of Inl e \<Rightarrow> Inl e | Inr s' \<Rightarrow> Inr (s'\<lparr>oldtip := a\<rparr>))"
proof (induction bs arbitrary: s)
  case Nil
  show ?case by simp
next
  case (Cons b bs)
  show ?case
    by (cases "finalize X b ln s") (simp_all add: finalize_oldtip Cons.IH)
qed

lemma parent_path_unique:
  "parent_path h a bs z \<Longrightarrow> parent_path h a bs' z \<Longrightarrow> bs = bs'"
proof (induction arbitrary: bs' rule: parent_path.induct)
  case (arrived z)
  then show ?case by (auto elim: parent_path.cases)
next
  case (step a z p bs)
  from step.prems step.hyps(1,2) obtain cs where "bs' = a # cs" "parent_path h p cs z"
    by (auto elim: parent_path.cases)
  with step.IH show ?case by simp
qed

lemma parent_path_suffix:
  "parent_path h a bs z \<Longrightarrow> c \<in> set bs \<Longrightarrow>
     \<exists>cs. parent_path h c cs z \<and> length cs \<le> length bs"
proof (induction rule: parent_path.induct)
  case (arrived z)
  then show ?case by simp
next
  case (step a z p bs)
  show ?case
  proof (cases "c = a")
    case True
    with step.hyps show ?thesis
      by (auto intro: parent_path.step)
  next
    case False
    with step.prems have "c \<in> set bs" by simp
    from step.IH [OF this] show ?thesis by auto
  qed
qed

lemma parent_path_distinct: "parent_path h a bs z \<Longrightarrow> distinct bs"
proof (induction rule: parent_path.induct)
  case (arrived z)
  show ?case by simp
next
  case (step a z p bs)
  have "a \<notin> set bs"
  proof
    assume "a \<in> set bs"
    from parent_path_suffix [OF step.hyps(3) this] obtain cs where
      cs: "parent_path h a cs z" "length cs \<le> length bs" by blast
    from step.hyps have "parent_path h a (a # bs) z"
      by (rule parent_path.step)
    with cs(1) have "cs = a # bs" by (rule parent_path_unique)
    with cs(2) show False by simp
  qed
  with step.IH show ?case by simp
qed

lemma closesD:
  assumes "closes b ln s s'"
  shows "keeps_scan s s'" "next_id s' = next_id s" "tip s' = parent (heap s b)"
    "\<And>m. m \<noteq> b \<Longrightarrow> parent (heap s' m) = parent (heap s m)"
    "\<And>m. t (heap s' m) = t (heap s m)"
  using assms by (simp_all add: closes_def)

lemma close_loop_path:
  assumes "parent_path h a bs z" and "distinct bs"
    and "\<forall>x \<in> set bs. parent (heap s x) = parent (h x)"
    and "oldtip s = Some a" and "last_matched_container s = Some z" and "length bs \<le> f"
  shows "close_loop f X s
     = ebind (finalize_all X (line_number s - 1) bs s) (\<lambda>s1. Inr (s1\<lparr>oldtip := Some z\<rparr>))"
  using assms
proof (induction arbitrary: s f rule: parent_path.induct)
  case (arrived z)
  then have "s\<lparr>oldtip := Some z\<rparr> = s" by (cases s) simp
  with arrived show ?case by (cases f) simp_all
next
  case (step a z p bs)
  from step.prems(5) obtain f' where f: "f = Suc f'" "length bs \<le> f'"
    by (cases f) auto
  from step.prems(2) step.hyps(2) have par: "parent (heap s a) = Some p"
    by simp
  have neq: "oldtip s \<noteq> last_matched_container s"
    using step.prems(3,4) step.hyps(1) by simp
  show ?case
  proof (cases "finalize X a (line_number s - 1) s")
    case (Inl e)
    with neq step.prems(3) show ?thesis
      by (simp add: f par)
  next
    case (Inr s1)
    note c = closesD [OF finalize_closes [OF Inr]]
    let ?s' = "s1\<lparr>oldtip := Some p\<rparr>"
    have ln: "line_number ?s' = line_number s"
      using c(1) by (simp add: keeps_defs)
    have "close_loop f' X ?s'
        = ebind (finalize_all X (line_number ?s' - 1) bs ?s') (\<lambda>s1. Inr (s1\<lparr>oldtip := Some z\<rparr>))"
    proof (rule step.IH)
      show "distinct bs" using step.prems(1) by simp
      show "\<forall>x \<in> set bs. parent (heap ?s' x) = parent (h x)"
      proof
        fix x assume x: "x \<in> set bs"
        with step.prems(1) have "x \<noteq> a" by auto
        then have "parent (heap s1 x) = parent (heap s x)" by (rule c(4))
        with x step.prems(2) show "parent (heap ?s' x) = parent (h x)" by simp
      qed
      show "oldtip ?s' = Some p" by simp
      show "last_matched_container ?s' = Some z"
        using c(1) step.prems(4) by (simp add: keeps_defs)
      show "length bs \<le> f'" by (rule f(2))
    qed
    then have "close_loop f' X ?s'
        = ebind (finalize_all X (line_number s - 1) bs s1) (\<lambda>s1. Inr (s1\<lparr>oldtip := Some z\<rparr>))"
      unfolding ln finalize_all_oldtip
      by (cases "finalize_all X (line_number s - 1) bs s1") simp_all
    with Inr neq step.prems(3) show ?thesis
      by (simp add: f par)
  qed
qed

text \<open>
  Claim C6: a call of \<^verbatim>\<open>close_unmatched_blocks\<close> that returns leaves \<^verbatim>\<open>all_closed\<close>
  set, and a second call returns the state unchanged. When \<^verbatim>\<open>all_closed\<close> is not
  set and \<open>bs\<close> are the allocated nodes from \<^verbatim>\<open>oldtip\<close> up the parents to
  \<^verbatim>\<open>last_matched_container\<close>, that one excluded, the call finalizes the nodes of
  \<open>bs\<close> in this order, each at \<^verbatim>\<open>line_number - 1\<close>, and then sets \<^verbatim>\<open>oldtip\<close> to
  \<^verbatim>\<open>last_matched_container\<close> and \<^verbatim>\<open>all_closed\<close> to true.
\<close>

theorem close_unmatched_blocks_idempotent:
  "(\<forall>s'. close_unmatched_blocks X s = Inr s' \<longrightarrow>
       all_closed s' \<and> close_unmatched_blocks X s' = Inr s')
   \<and> (\<not> all_closed s \<and> oldtip s = Some a \<and> last_matched_container s = Some z
        \<and> parent_path (heap s) a bs z \<and> (\<forall>b \<in> set bs. b < next_id s) \<longrightarrow>
       close_unmatched_blocks X s
         = ebind (finalize_all X (line_number s - 1) bs s)
             (\<lambda>s1. Inr (s1\<lparr>oldtip := Some z, all_closed := True\<rparr>)))"
proof -
  have one: "all_closed s' \<and> close_unmatched_blocks X s' = Inr s'"
    if "close_unmatched_blocks X s = Inr s'" for s'
    using that
    by (auto simp: close_unmatched_blocks_def ebind_eq_Inr split: if_splits)
  have two: "close_unmatched_blocks X s
         = ebind (finalize_all X (line_number s - 1) bs s)
             (\<lambda>s1. Inr (s1\<lparr>oldtip := Some z, all_closed := True\<rparr>))"
    if a: "\<not> all_closed s \<and> oldtip s = Some a \<and> last_matched_container s = Some z
        \<and> parent_path (heap s) a bs z \<and> (\<forall>b \<in> set bs. b < next_id s)"
  proof -
    from a have d: "distinct bs" by (auto dest: parent_path_distinct)
    from a have "set bs \<subseteq> {..<next_id s}" by auto
    then have "card (set bs) \<le> card {..<next_id s}"
      by (intro card_mono) simp_all
    with d have len: "length bs \<le> next_id s"
      by (simp add: distinct_card)
    from a d len have "close_loop (next_id s) X s
       = ebind (finalize_all X (line_number s - 1) bs s) (\<lambda>s1. Inr (s1\<lparr>oldtip := Some z\<rparr>))"
      by (intro close_loop_path [where h = "heap s" and a = a]) auto
    with a show ?thesis
      by (cases "finalize_all X (line_number s - 1) bs s")
         (simp_all add: close_unmatched_blocks_def)
  qed
  from one two show ?thesis by blast
qed


theorem close_unmatched_blocks_idempotent_witness:
  "\<not> all_closed unmatched_html_block \<and> oldtip unmatched_html_block = Some 1
   \<and> last_matched_container unmatched_html_block = Some 0
   \<and> parent_path (heap unmatched_html_block) 1 [1] 0 \<and> 1 < next_id unmatched_html_block
   \<and> (\<exists>s1 s'. finalize plain_externals 1 2 unmatched_html_block = Inr s1
         \<and> s' = s1\<lparr>oldtip := Some 0, all_closed := True\<rparr>
         \<and> close_unmatched_blocks plain_externals unmatched_html_block = Inr s'
         \<and> all_closed s' \<and> close_unmatched_blocks plain_externals s' = Inr s')"
proof -
  let ?s = unmatched_html_block
  have flags: "\<not> all_closed ?s" "oldtip ?s = Some 1" "last_matched_container ?s = Some 0"
    "line_number ?s = 3" "next_id ?s = 2" "parent (heap ?s 1) = Some 0"
    by (simp_all add: unmatched_html_block_def html_block_at_close_def unallocated_def)
  have path: "parent_path (heap ?s) 1 [1] 0"
    using flags(6) by (auto intro!: parent_path.intros)
  have "HtmlBlock_finalize 1 s \<noteq> Inl e" if "string_content (heap s 1) \<noteq> None" for s e
    using that by (auto simp: HtmlBlock_finalize_def)
  then have "finalize plain_externals 1 2 ?s \<noteq> Inl e" for e
    by (simp add: finalize_def Let_def Block_finalize_def unmatched_html_block_def
        html_block_at_close_def unallocated_def upd_def ebind_eq_Inl)
  then obtain s1 where s1: "finalize plain_externals 1 2 ?s = Inr s1"
    by (cases "finalize plain_externals 1 2 ?s") auto
  from close_unmatched_blocks_idempotent
    [of plain_externals ?s 1 0 "[1]"] flags path
  have all: "\<forall>s'. close_unmatched_blocks plain_externals ?s = Inr s' \<longrightarrow>
       all_closed s' \<and> close_unmatched_blocks plain_externals s' = Inr s'"
    and eq: "close_unmatched_blocks plain_externals ?s
       = ebind (finalize_all plain_externals (line_number ?s - 1) [1] ?s)
           (\<lambda>s1. Inr (s1\<lparr>oldtip := Some 0, all_closed := True\<rparr>))"
    by simp_all
  from eq s1 flags(4) have
    "close_unmatched_blocks plain_externals ?s = Inr (s1\<lparr>oldtip := Some 0, all_closed := True\<rparr>)"
    by simp
  with all s1 flags path show ?thesis by simp
qed

subsection \<open>\<^verbatim>\<open>add_child\<close>\<close>

lemma add_child_close_fits:
  "tip s = Some p \<Longrightarrow> can_contain (t (heap s p)) tag \<Longrightarrow> add_child_close f X tag s = Inr s"
  by (cases f) simp_all

lemma add_child_fits:
  assumes "tip s = Some p" and "can_contain (t (heap s p)) tag"
  shows "\<exists>s'. add_child X tag off s = Inr (next_id s, s') \<and> tip s' = Some (next_id s)
     \<and> t (heap s' (next_id s)) = tag \<and> keeps_scan s s'"
proof -
  define s2 where "s2 = snd (alloc_pos ((line_number s, int off + 1), (0, 0)) s)"
  define s3 where "s3 = snd (Node tag (next_pos s) s2)"
  define s4 where "s4 = upd (next_id s) (\<lambda>x. x\<lparr>string_content := Some []\<rparr>) s3"
  define s5 where "s5 = append_child p (next_id s) s4"
  have 2: "keeps_scan s s2" "next_id s2 = next_id s" "tip s2 = tip s"
    by (simp_all add: s2_def alloc_pos_def keeps_defs)
  have 3: "keeps_scan s2 s3" "tip s3 = tip s2" "t (heap s3 (next_id s)) = tag"
    by (simp_all add: s3_def Node_def keeps_defs 2)
  have 4: "keeps_scan s s4" "tip s4 = Some p" "t (heap s4 (next_id s)) = tag"
    using keeps_scan_trans [OF 2(1) 3(1)] by (simp_all add: s4_def 2 3 assms)
  have l: "links_only s4 s5"
    unfolding s5_def by (rule append_child_links_only)
  then have 5: "keeps_scan s s5" "t (heap s5 (next_id s)) = tag"
    using 4 by (auto simp: links_only_def same_data_def intro: keeps_scan_trans)
  have "add_child X tag off s = Inr (next_id s, s5\<lparr>tip := Some (next_id s)\<rparr>)"
    using 4(2)
    by (simp add: add_child_def add_child_close_fits [OF assms] alloc_pos_def Node_def Let_def
        s5_def s4_def s3_def s2_def)
  with 5 show ?thesis
    by (simp add: keeps_defs)
qed

subsection \<open>The test before the block starts\<close>

lemma arabic_indic_three_line_fields:
  "current_line arabic_indic_three_line = [0x663, 46, 32, 120]"
  "next_nonspace arabic_indic_three_line = 0"
  "offset arabic_indic_three_line = 0"
  "column arabic_indic_three_line = 0"
  "next_nonspace_column arabic_indic_three_line = 0"
  "indent arabic_indic_three_line = 0"
  "\<not> indented arabic_indic_three_line"
  "\<not> blank arabic_indic_three_line"
  "all_closed arabic_indic_three_line"
  "tip arabic_indic_three_line = Some 0"
  "t (heap arabic_indic_three_line 0) = Document"
  by (simp_all add: arabic_indic_three_line_def arabic_indic_line_def find_next_nonspace_def
      Parser_def ustr_def peek_def CODE_INDENT_def)

lemma is_digit_examples: "is_digit 0x663" "\<not> is_digit 46" "\<not> is_ascii_digit 0x663"
  by (simp_all add: is_digit_def Nd_ranges_def is_ascii_digit_def)

lemma marker_examples:
  "reBulletListMarker [0x663, 46, 32, 120] = None"
  "reOrderedListMarker [0x663, 46, 32, 120] = Some ([0x663], 46)"
  "\<not> reMaybeSpecial [0x663, 46, 32, 120]"
  by (simp_all add: reBulletListMarker_def reOrderedListMarker_def reMaybeSpecial_def
      maybe_special_chars_def ustr_def is_digit_examples Let_def)

lemma parse_list_marker_example:
  "\<exists>data s'. parse_list_marker arabic_indic_three_line = Some (data, s')
      \<and> all_closed s' \<and> tip s' = Some 0 \<and> t (heap s' 0) = Document"
  by (simp add: parse_list_marker_def arabic_indic_three_line_fields marker_examples Let_def
      peek_def advance_next_nonspace_def advance_offset_def
      marker_spaces.simps [of _ "arabic_indic_three_line\<lparr>offset := Suc (Suc 0), column := Suc (Suc 0)\<rparr>"])

lemma can_contain_examples: "can_contain Document List" "can_contain List Item"
  by (simp_all add: can_contain_def)

text \<open>
  Claim C8 does not hold of the code: at the line of U+0663, a full stop, a space and the
  letter x, the line is not indented and its first character is none of the characters of
  \<^verbatim>\<open>reMaybeSpecial\<close>, so that the loop over the block starts is left at once with
  the container unchanged; but \<^verbatim>\<open>list_item\<close>, called on this state, returns 1: the
  \<^verbatim>\<open>\d\<close> of \<^verbatim>\<open>reOrderedListMarker\<close> matches every Unicode decimal digit.
\<close>

theorem fast_skip_misses_unicode_digit:
  "\<not> indented arabic_indic_three_line
   \<and> \<not> reMaybeSpecial (drop (next_nonspace arabic_indic_three_line)
                          (current_line arabic_indic_three_line))
   \<and> open_new_blocks f plain_externals False (Some 0) arabic_indic_line
       = Inr (Some 0, advance_next_nonspace arabic_indic_three_line)
   \<and> (\<exists>s'. list_item plain_externals arabic_indic_three_line (Some 0) = Inr (1, s'))"
proof -
  obtain data s0 where m: "parse_list_marker arabic_indic_three_line = Some (data, s0)"
    and s0: "all_closed s0" "tip s0 = Some 0" "t (heap s0 0) = Document"
    using parse_list_marker_example by blast
  obtain r s1 where a: "alloc_dict data s0 = (r, s1)"
    by (cases "alloc_dict data s0")
  with s0 have s1: "all_closed s1" "tip s1 = Some 0" "t (heap s1 0) = Document"
    by (auto simp: alloc_dict_def)
  from s1 obtain s3 where l: "add_child plain_externals List (next_nonspace s1) s1 = Inr (next_id s1, s3)"
    "tip s3 = Some (next_id s1)" "t (heap s3 (next_id s1)) = List"
    using add_child_fits [of s1 0 List plain_externals "next_nonspace s1"]
    by (auto simp: can_contain_examples)
  let ?l = "next_id s1"
  let ?s4 = "upd ?l (\<lambda>x. x\<lparr>list_data := Some r\<rparr>) s3"
  from l have "tip ?s4 = Some ?l" "can_contain (t (heap ?s4 ?l)) Item"
    by (simp_all add: can_contain_examples)
  from add_child_fits [OF this]
  obtain s5 where i: "add_child plain_externals Item (next_nonspace ?s4) ?s4 = Inr (next_id ?s4, s5)"
    by blast
  have cl: "close_unmatched_blocks plain_externals s1 = Inr s1"
    using s1 by (simp add: close_unmatched_blocks_def)
  have k: "kind_of s1 (tip s1) = Inr Document"
    using s1 by (simp add: kind_of_def)
  have "list_item plain_externals arabic_indic_three_line (Some 0)
      = Inr (1, upd (next_id ?s4) (\<lambda>x. x\<lparr>list_data := Some r\<rparr>) s5)"
    unfolding list_item_def list_item_body_def
    by (simp add: arabic_indic_three_line_fields(7) m a cl k l(1) i [simplified])
  then have "\<exists>s'. list_item plain_externals arabic_indic_three_line (Some 0) = Inr (1, s')"
    by blast
  moreover have "open_new_blocks f plain_externals False (Some 0) arabic_indic_line
       = Inr (Some 0, advance_next_nonspace arabic_indic_three_line)"
    using arabic_indic_three_line_fields marker_examples
    by (simp add: arabic_indic_three_line_def [symmetric])
  ultimately show ?thesis
    by (simp add: arabic_indic_three_line_fields marker_examples)
qed

subsection \<open>Results and exceptions\<close>

lemma ok_simps [simp]: "ok A P (Inr x) = P x" "ok A P (Inl e) = A e"
  by (simp_all add: ok_def)






lemma ok_conj: "ok A P m \<Longrightarrow> ok A Q m \<Longrightarrow> ok A (\<lambda>x. P x \<and> Q x) m"
  by (cases m) simp_all

subsection \<open>The line scanner leaves the tree alone\<close>

lemma same_tree_refl [simp]: "same_tree s s"
  by (simp add: same_tree_def)

lemma same_tree_trans: "same_tree s s1 \<Longrightarrow> same_tree s1 s2 \<Longrightarrow> same_tree s s2"
  by (simp add: same_tree_def)

lemma same_tree_fields:
  assumes "same_tree s s'"
  shows "heap s' = heap s" "next_id s' = next_id s" "positions s' = positions s"
    "next_pos s' = next_pos s" "dicts s' = dicts s" "next_dict s' = next_dict s"
    "doc s' = doc s" "tip s' = tip s" "oldtip s' = oldtip s"
    "current_line s' = current_line s" "line_number s' = line_number s"
    "all_closed s' = all_closed s"
    "last_matched_container s' = last_matched_container s"
    "refmap s' = refmap s" "last_line_length s' = last_line_length s"
  using assms by (simp_all add: same_tree_def)

lemma find_next_nonspace_tree: "same_tree s (find_next_nonspace s)"
  by (simp add: same_tree_def find_next_nonspace_def Let_def split: prod.splits)

lemma advance_next_nonspace_tree: "same_tree s (advance_next_nonspace s)"
  by (simp add: same_tree_def advance_next_nonspace_def)

lemma advance_offset_tree: "same_tree s (advance_offset c b s)"
  by (simp add: same_tree_def advance_offset_def Let_def split: prod.splits)

lemma skip_fence_offset_tree: "same_tree s (skip_fence_offset i s)"
  by (induction i arbitrary: s)
     (auto intro: same_tree_trans [OF advance_offset_tree])

lemma marker_spaces_tree: "same_tree s (marker_spaces c s)"
proof (induction c s rule: marker_spaces.induct)
  case (1 c s)
  show ?case
  proof (cases "column (advance_offset 1 True s) - c < 5
      \<and> (peek (current_line (advance_offset 1 True s)) (offset (advance_offset 1 True s)) = Some SP
         \<or> peek (current_line (advance_offset 1 True s)) (offset (advance_offset 1 True s))
             = Some TAB)")
    case True
    from 1 [OF refl refl True] True show ?thesis
      by (subst marker_spaces.simps)
         (auto simp: Let_def intro: same_tree_trans [OF advance_offset_tree])
  next
    case False
    then show ?thesis
      by (subst marker_spaces.simps) (auto simp: Let_def advance_offset_tree)
  qed
qed

lemmas scanner_fields [simp] =
  same_tree_fields [OF find_next_nonspace_tree]
  same_tree_fields [OF advance_next_nonspace_tree]
  same_tree_fields [OF advance_offset_tree]
  same_tree_fields [OF skip_fence_offset_tree]
  same_tree_fields [OF marker_spaces_tree]

lemma same_tree_offset [simp]: "same_tree s (s1\<lparr>offset := a\<rparr>) = same_tree s s1"
  "same_tree s (s1\<lparr>column := b\<rparr>) = same_tree s s1"
  by (simp_all add: same_tree_def)


subsection \<open>The line number changes at the start of a line only\<close>

lemma keeps_text_refl [simp]: "keeps_text s s"
  by (simp add: keeps_text_def)


lemma keeps_text_updates [simp]:
  "keeps_text s (s1\<lparr>tip := a\<rparr>) = keeps_text s s1"
  "keeps_text s (s1\<lparr>oldtip := a\<rparr>) = keeps_text s s1"
  "keeps_text s (s1\<lparr>all_closed := b\<rparr>) = keeps_text s s1"
  "keeps_text s (s1\<lparr>last_matched_container := a\<rparr>) = keeps_text s s1"
  "keeps_text s (s1\<lparr>last_line_length := n\<rparr>) = keeps_text s s1"
  "keeps_text s (s1\<lparr>offset := n\<rparr>) = keeps_text s s1"
  "keeps_text s (s1\<lparr>column := n\<rparr>) = keeps_text s s1"
  "keeps_text s (s1\<lparr>heap := h\<rparr>) = keeps_text s s1"
  "keeps_text s (s1\<lparr>next_id := n\<rparr>) = keeps_text s s1"
  "keeps_text s (s1\<lparr>positions := ps\<rparr>) = keeps_text s s1"
  "keeps_text s (s1\<lparr>next_pos := n\<rparr>) = keeps_text s s1"
  "keeps_text s (s1\<lparr>dicts := ds\<rparr>) = keeps_text s s1"
  "keeps_text s (s1\<lparr>next_dict := n\<rparr>) = keeps_text s s1"
  "keeps_text s (s1\<lparr>refmap := r\<rparr>) = keeps_text s s1"
  "keeps_text s (upd m f s1) = keeps_text s s1"
  "keeps_text s (find_next_nonspace s1) = keeps_text s s1"
  "keeps_text s (advance_next_nonspace s1) = keeps_text s s1"
  "keeps_text s (advance_offset c b s1) = keeps_text s s1"
  "keeps_text s (skip_fence_offset i s1) = keeps_text s s1"
  "keeps_text s (marker_spaces k s1) = keeps_text s s1"
  by (simp_all add: keeps_text_def)

lemma keeps_text_left [simp]:
  "keeps_text (s1\<lparr>tip := a\<rparr>) s' = keeps_text s1 s'"
  "keeps_text (s1\<lparr>oldtip := a\<rparr>) s' = keeps_text s1 s'"
  "keeps_text (s1\<lparr>all_closed := b\<rparr>) s' = keeps_text s1 s'"
  "keeps_text (s1\<lparr>last_matched_container := a\<rparr>) s' = keeps_text s1 s'"
  "keeps_text (s1\<lparr>last_line_length := n\<rparr>) s' = keeps_text s1 s'"
  "keeps_text (s1\<lparr>offset := n\<rparr>) s' = keeps_text s1 s'"
  "keeps_text (s1\<lparr>column := n\<rparr>) s' = keeps_text s1 s'"
  "keeps_text (s1\<lparr>heap := h\<rparr>) s' = keeps_text s1 s'"
  "keeps_text (s1\<lparr>next_id := n\<rparr>) s' = keeps_text s1 s'"
  "keeps_text (s1\<lparr>positions := ps\<rparr>) s' = keeps_text s1 s'"
  "keeps_text (s1\<lparr>next_pos := n\<rparr>) s' = keeps_text s1 s'"
  "keeps_text (s1\<lparr>dicts := ds\<rparr>) s' = keeps_text s1 s'"
  "keeps_text (s1\<lparr>next_dict := n\<rparr>) s' = keeps_text s1 s'"
  "keeps_text (s1\<lparr>refmap := r\<rparr>) s' = keeps_text s1 s'"
  "keeps_text (upd m f s1) s' = keeps_text s1 s'"
  "keeps_text (find_next_nonspace s1) s' = keeps_text s1 s'"
  "keeps_text (advance_next_nonspace s1) s' = keeps_text s1 s'"
  "keeps_text (advance_offset c b s1) s' = keeps_text s1 s'"
  "keeps_text (skip_fence_offset i s1) s' = keeps_text s1 s'"
  "keeps_text (marker_spaces k s1) s' = keeps_text s1 s'"
  by (simp_all add: keeps_text_def)

lemma keeps_scan_text: "keeps_scan s s' \<Longrightarrow> keeps_text s s'"
  by (simp add: keeps_text_def keeps_defs)

lemma links_only_text: "links_only s s' \<Longrightarrow> keeps_text s s'"
  by (simp add: links_only_def keeps_scan_text)

lemma keeps_text_links [simp]:
  "keeps_text s (unlink n s1) = keeps_text s s1"
  "keeps_text s (append_child p c s1) = keeps_text s s1"
  using links_only_text [OF unlink_links_only [where n = n and s = s1]]
    links_only_text [OF append_child_links_only [where p = p and c = c and s = s1]]
  by (auto simp: keeps_text_def)

lemma keeps_text_links_left [simp]:
  "keeps_text (unlink n s1) s' = keeps_text s1 s'"
  "keeps_text (append_child p c s1) s' = keeps_text s1 s'"
  using links_only_text [OF unlink_links_only [where n = n and s = s1]]
    links_only_text [OF append_child_links_only [where p = p and c = c and s = s1]]
  by (auto simp: keeps_text_def)

























declare open_new_blocks.simps [simp del]











subsection \<open>The lines of the input\<close>








lemma split_lines_not_Nil [simp]: "split_lines acc cs \<noteq> []"
  by (induction acc cs rule: split_lines.induct) (simp_all split: list.splits)


lemma split_lines_Nil [simp]: "split_lines acc [] = [rev acc]"
  by simp








end
